theory Spec2Isabelle
  imports Main "HOL-Library.Word" "HOL-Library.Sublist"
begin

section \<open>UPnP global initialisation (src/lib/upnp/Init.cxx)\<close>

text \<open>
  The file keeps one process-wide counter, \<^verbatim>\<open>static unsigned upnp_ref\<close>, guarded by a
  mutex. The counter is a 32-bit unsigned machine integer, so it is a \<open>32 word\<close> here
  and \<open>+ 1\<close> and \<open>- 1\<close> wrap around as in C++. The libupnp library is an external
  collaborator: its own state (initialised or not) and the calls made to it are fields
  of the state, and the return code of \<^verbatim>\<open>UpnpInit\<close> is an argument.
\<close>

datatype upnp_call = UpnpInit | UpnpSetMaxContentLength nat | ixmlRelaxParser nat | UpnpFinish

record upnp =
  upnp_ref :: "32 word"
  lib_initialized :: bool
  lib_calls :: "upnp_call list"

datatype upnp_error = RuntimeError upnp | AssertionFailure

definition UPNP_E_SUCCESS :: int where
  "UPNP_E_SUCCESS = 0"

text \<open>\<^verbatim>\<open>static unsigned upnp_ref;\<close> is zero-initialised; nothing has been called yet.\<close>

definition upnp_initial :: upnp where
  "upnp_initial = \<lparr>upnp_ref = 0, lib_initialized = False, lib_calls = []\<rparr>"

text \<open>
  \<^verbatim>\<open>DoInit\<close>: calls \<^verbatim>\<open>UpnpInit(0, 0)\<close>; a code other than \<^verbatim>\<open>UPNP_E_SUCCESS\<close> throws a
  runtime error (the library stays uninitialised); otherwise the two configuration
  calls follow.
\<close>

definition DoInit :: "int \<Rightarrow> upnp \<Rightarrow> upnp_error + upnp" where
  "DoInit code s =
     (let s1 = s\<lparr>lib_calls := lib_calls s @ [UpnpInit]\<rparr> in
      if code \<noteq> UPNP_E_SUCCESS then Inl (RuntimeError s1)
      else Inr (s1\<lparr>lib_initialized := True,
                    lib_calls := lib_calls s1 @ [UpnpSetMaxContentLength (2000 * 1024), ixmlRelaxParser 1]\<rparr>))"

text \<open>
  \<^verbatim>\<open>UpnpGlobalInit\<close>: \<^verbatim>\<open>if (upnp_ref == 0) DoInit(); ++upnp_ref;\<close>. An exception of
  \<^verbatim>\<open>DoInit\<close> leaves before the increment.
\<close>

definition UpnpGlobalInit :: "int \<Rightarrow> upnp \<Rightarrow> upnp_error + upnp" where
  "UpnpGlobalInit code s =
     (if upnp_ref s = 0
      then (case DoInit code s of
              Inl e \<Rightarrow> Inl e
            | Inr s1 \<Rightarrow> Inr (s1\<lparr>upnp_ref := upnp_ref s1 + 1\<rparr>))
      else Inr (s\<lparr>upnp_ref := upnp_ref s + 1\<rparr>))"

text \<open>
  \<^verbatim>\<open>UpnpGlobalFinish\<close>: \<^verbatim>\<open>assert(upnp_ref > 0); if (--upnp_ref == 0) UpnpFinish();\<close>.
  The assertion is modelled as enabled: a failed assertion aborts.
\<close>

definition UpnpGlobalFinish :: "upnp \<Rightarrow> upnp_error + upnp" where
  "UpnpGlobalFinish s =
     (if \<not> 0 < upnp_ref s then Inl AssertionFailure
      else let s1 = s\<lparr>upnp_ref := upnp_ref s - 1\<rparr> in
           if upnp_ref s1 = 0
           then Inr (s1\<lparr>lib_initialized := False, lib_calls := lib_calls s1 @ [UpnpFinish]\<rparr>)
           else Inr s1)"

text \<open>
  A sequence of calls made by the clients of the pair. \<open>GlobalInit code\<close> carries the
  code \<^verbatim>\<open>UpnpInit\<close> would return if this call reaches it. The sequence stops at the
  first call that does not return.
\<close>

datatype upnp_op = GlobalInit int | GlobalFinish

fun upnp_step :: "upnp_op \<Rightarrow> upnp \<Rightarrow> upnp_error + upnp" where
  "upnp_step (GlobalInit code) s = UpnpGlobalInit code s"
| "upnp_step GlobalFinish s = UpnpGlobalFinish s"

fun upnp_run :: "upnp_op list \<Rightarrow> upnp \<Rightarrow> upnp_error + upnp" where
  "upnp_run [] s = Inr s"
| "upnp_run (x # xs) s =
     (case upnp_step x s of Inl e \<Rightarrow> Inl e | Inr s1 \<Rightarrow> upnp_run xs s1)"

text \<open>
  The callers' side of the contract. \<open>balanced n ops\<close>: starting with \<open>n\<close> references
  held, no prefix of \<open>ops\<close> finishes more often than it has initialised. \<open>inits\<close> and
  \<open>finishes\<close> count the calls; \<open>init_codes_ok\<close> says every \<^verbatim>\<open>UpnpInit\<close> code of the
  sequence is a success.
\<close>

fun balanced :: "nat \<Rightarrow> upnp_op list \<Rightarrow> bool" where
  "balanced n [] = True"
| "balanced n (GlobalInit code # ops) = balanced (Suc n) ops"
| "balanced n (GlobalFinish # ops) = (0 < n \<and> balanced (n - 1) ops)"

fun inits :: "upnp_op list \<Rightarrow> nat" where
  "inits [] = 0"
| "inits (GlobalInit code # ops) = Suc (inits ops)"
| "inits (GlobalFinish # ops) = inits ops"

fun finishes :: "upnp_op list \<Rightarrow> nat" where
  "finishes [] = 0"
| "finishes (GlobalInit code # ops) = finishes ops"
| "finishes (GlobalFinish # ops) = Suc (finishes ops)"

fun init_codes_ok :: "upnp_op list \<Rightarrow> bool" where
  "init_codes_ok [] = True"
| "init_codes_ok (GlobalInit code # ops) = (code = UPNP_E_SUCCESS \<and> init_codes_ok ops)"
| "init_codes_ok (GlobalFinish # ops) = init_codes_ok ops"

text \<open>
  \<open>peak n ops\<close>: starting with \<open>n\<close> references held, the largest number of references
  held at any moment of \<open>ops\<close>, every \<^verbatim>\<open>UpnpGlobalInit\<close> counted as taking one.
\<close>

fun peak :: "nat \<Rightarrow> upnp_op list \<Rightarrow> nat" where
  "peak n [] = n"
| "peak n (GlobalInit code # ops) = max n (peak (Suc n) ops)"
| "peak n (GlobalFinish # ops) = max n (peak (n - 1) ops)"

text \<open>Whether a call of the pair, made in state \<open>s\<close>, reaches the library call \<open>c\<close>.\<close>

definition invokes :: "upnp_error + upnp \<Rightarrow> upnp \<Rightarrow> upnp_call \<Rightarrow> bool" where
  "invokes r s c =
     (case r of
        Inr s1 \<Rightarrow> c \<in> set (drop (length (lib_calls s)) (lib_calls s1))
      | Inl (RuntimeError s1) \<Rightarrow> c \<in> set (drop (length (lib_calls s)) (lib_calls s1))
      | Inl AssertionFailure \<Rightarrow> False)"

section \<open>Observable calls to collaborators\<close>

text \<open>
  Logging, the archive plugin API and the decoder API are collaborators outside the
  files modelled here. A call to one of them is recorded as an event, in call order.
\<close>

datatype event =
    LogWarning string
  | LogError string
  | FormatDebug string
  | FormatDefault string
  | ArchiveFile_Open string
  | ArchiveFile_Close
  | tag_handler_invoke_duration int
  | tag_handler_invoke_tag string string
  | decoder_initialized int bool int
  | decoder_data nat
  | Xmp_seek int
  | decoder_command_finished

section \<open>The xmp decoder plugin (src/decoder/plugins/XmpDecoderPlugin.cxx)\<close>

type_synonym byte = "8 word"

definition LIBXMP_FILE_LIMIT :: nat where
  "LIBXMP_FILE_LIMIT = 100 * 1024 * 1024"

text \<open>
  The input stream is a collaborator. Its state is the content not yet read; \<open>grants\<close>
  lists how many bytes the coming reads are willing to deliver (a read may be short,
  and a grant of 0 while content is left is a failed or interrupted read); once the
  list is used up a read delivers all that fits the caller's buffer.
  \<^verbatim>\<open>decoder_read\<close> returns the bytes read (their number is the C++ return value) and
  the stream after the read; \<^verbatim>\<open>LockIsEOF\<close> holds when no content is left.
\<close>

record InputStream =
  unread :: "byte list"
  grants :: "nat list"
  seekable :: bool

definition decoder_read :: "InputStream \<Rightarrow> nat \<Rightarrow> byte list \<times> InputStream" where
  "decoder_read inp len =
     (let n = (case grants inp of [] \<Rightarrow> min len (length (unread inp))
                                | g # gs \<Rightarrow> min g (min len (length (unread inp))))
      in (take n (unread inp), inp\<lparr>unread := drop n (unread inp), grants := tl (grants inp)\<rparr>))"

definition LockIsEOF :: "InputStream \<Rightarrow> bool" where
  "LockIsEOF inp = (unread inp = [])"

text \<open>
  \<^verbatim>\<open>Xmp::load_module\<close>: read chunks of at most 8192 bytes and append them to the
  buffer. A read of 0 bytes ends the loop: at the end of the stream the buffer is
  returned, otherwise an exception is thrown. A buffer grown beyond the limit throws.
  \<open>Inl\<close> carries the exception's message.
\<close>

function load_module :: "InputStream \<Rightarrow> byte list \<Rightarrow> string + byte list" where
  "load_module inp buffer =
     (let (chunk, inp1) = decoder_read inp 8192; ret = length chunk in
      if ret = 0
      then (if LockIsEOF inp1 then Inr buffer else Inl ''i/o error while reading file'')
      else let buffer1 = buffer @ chunk in
           if length buffer1 > LIBXMP_FILE_LIMIT then Inl ''file is too large''
           else load_module inp1 buffer1)"
  by pat_completeness auto
termination
proof (relation "measure (\<lambda>(inp, buffer). length (unread inp))")
  show "wf (measure (\<lambda>(inp, buffer). length (unread inp)))"
    by simp
next
  fix inp :: InputStream and buffer :: "byte list" and x xa y xb xc
  assume r: "x = decoder_read inp 8192" "(xa, y) = x" "xb = length xa" "xb \<noteq> 0"
  then have "xa = fst (decoder_read inp 8192)" and "y = snd (decoder_read inp 8192)"
    by (metis fst_conv, metis snd_conv)
  with r show "((y, xc), (inp, buffer)) \<in> measure (\<lambda>(inp, buffer). length (unread inp))"
    by (auto simp: decoder_read_def Let_def split: list.splits)
qed

declare load_module.simps [simp del]

text \<open>
  The libxmp library is a collaborator: the record holds its answers. A frame is what
  one \<^verbatim>\<open>xmp_play_frame\<close> and \<^verbatim>\<open>xmp_get_frame_info\<close> deliver; when the list of frames is
  used up the module has ended and \<^verbatim>\<open>xmp_play_frame\<close> fails.
\<close>

record xmp_frame_info =
  play_rc :: int
  loop_count :: int
  buffer_size :: nat

record libxmp =
  xmp_create_context :: bool
  xmp_load_module_from_memory :: "byte list \<Rightarrow> int"
  xmp_start_player :: int
  mod_duration :: int
  mod_name :: "string option"
  mod_comment :: "string option"
  xmp_play_frame :: "xmp_frame_info list"

text \<open>
  The constructor \<^verbatim>\<open>Xmp::Xmp\<close>: every failure throws; \<open>Inl\<close> carries the message,
  \<open>Inr ()\<close> is a constructed player.
\<close>

definition Xmp :: "libxmp \<Rightarrow> InputStream \<Rightarrow> string + unit" where
  "Xmp lib inp =
     (if \<not> xmp_create_context lib then Inl ''cannot create xmp context''
      else case load_module inp [] of
             Inl e \<Rightarrow> Inl e
           | Inr buffer \<Rightarrow>
               if xmp_load_module_from_memory lib buffer \<noteq> 0 then Inl ''cannot load module''
               else if xmp_start_player lib \<noteq> 0 then Inl ''cannot start playing module''
               else Inr ())"

text \<open>
  \<^verbatim>\<open>libxmp_scan_stream\<close>: the result and the tag handler calls made. Any exception is
  caught and gives \<open>False\<close>.
\<close>

definition TAG_TITLE :: string where
  "TAG_TITLE = ''title''"

definition TAG_COMMENT :: string where
  "TAG_COMMENT = ''comment''"

definition libxmp_scan_stream :: "libxmp \<Rightarrow> InputStream \<Rightarrow> bool \<times> event list" where
  "libxmp_scan_stream lib inp =
     (case Xmp lib inp of
        Inl e \<Rightarrow> (False, [])
      | Inr u \<Rightarrow>
          (True,
           [tag_handler_invoke_duration (mod_duration lib)] @
           (case mod_name lib of None \<Rightarrow> [] | Some title \<Rightarrow> [tag_handler_invoke_tag TAG_TITLE title]) @
           (case mod_comment lib of None \<Rightarrow> [] | Some c \<Rightarrow> [tag_handler_invoke_tag TAG_COMMENT c])))"

text \<open>
  The decode loop of \<^verbatim>\<open>libxmp_stream_decode\<close>. \<^verbatim>\<open>Xmp::play_frame\<close> gives a frame of
  size 0 when playing fails or the module has looped; a frame of size 0 ends the loop.
  Each other frame is handed to \<^verbatim>\<open>decoder_data\<close>, whose answer is the next decoder
  command (none left: no command); \<open>SEEK\<close> carries the time \<^verbatim>\<open>decoder_seek_time\<close> gives.
\<close>

datatype DecoderCommand = NONE | START | STOP | SEEK int

definition play_frame :: "xmp_frame_info \<Rightarrow> nat" where
  "play_frame fi = (if play_rc fi \<noteq> 0 then 0 else if loop_count fi > 0 then 0 else buffer_size fi)"

fun decode_loop :: "xmp_frame_info list \<Rightarrow> DecoderCommand list \<Rightarrow> event list" where
  "decode_loop [] cmds = []"
| "decode_loop (fi # fis) cmds =
     (if play_frame fi = 0 then []
      else decoder_data (play_frame fi) #
        (case (case cmds of [] \<Rightarrow> NONE | c # cs \<Rightarrow> c) of
           STOP \<Rightarrow> []
         | SEEK pos \<Rightarrow> Xmp_seek pos # decoder_command_finished # decode_loop fis (tl cmds)
         | c \<Rightarrow> decode_loop fis (tl cmds)))"

definition libxmp_stream_decode :: "libxmp \<Rightarrow> DecoderCommand list \<Rightarrow> InputStream \<Rightarrow> event list" where
  "libxmp_stream_decode lib cmds inp =
     (case Xmp lib inp of
        Inl e \<Rightarrow> [LogWarning e]
      | Inr u \<Rightarrow>
          decoder_initialized 44100 (seekable inp) (mod_duration lib) #
          decode_loop (xmp_play_frame lib) cmds)"

text \<open>Events that hand decoded output to the decoder client.\<close>

fun is_decoded_output :: "event \<Rightarrow> bool" where
  "is_decoded_output (decoder_initialized r s d) = True"
| "is_decoded_output (decoder_data n) = True"
| "is_decoded_output e = False"

section \<open>The song database (db/plugins/simple, storage)\<close>

text \<open>
  \<^verbatim>\<open>Directory\<close> objects live in the process heap and are handled through pointers
  (\<^verbatim>\<open>Directory *\<close>, \<^verbatim>\<open>Directory &\<close>); the update code mutates them in place. The heap is
  an explicit store: an address is an index, a cell holds a live object or \<open>None\<close>
  once the object has been deleted, and \<^verbatim>\<open>new\<close> appends a cell, so a new object never
  takes the address of another one.
\<close>

type_synonym dir_ref = nat

text \<open>
  Modelled from the spec: the device marker of a directory (Directory.hxx is not among
  the sources): an ordinary device id, or the sentinel that marks content that came
  from an archive.
\<close>

datatype device = DEVICE_ID nat | DEVICE_INARCHIVE

text \<open>
  Modelled from the spec: the leaf node (Song.hxx is not among the sources): its name
  (\<open>uri\<close>) and the metadata loaded from the stream, which is opaque here.
\<close>

record Song =
  uri :: string
  tag :: string

text \<open>
  Modelled from the spec: the directory node (Directory.hxx is not among the sources):
  name, modification time, device marker, children, leaves and the parent
  back-reference. Children and leaves are kept in the order they were added and are
  looked up by name. The children are addresses, the leaves are owned by the node.
\<close>

record Directory =
  dir_name :: string
  mtime :: int
  device :: device
  children :: "dir_ref list"
  songs :: "Song list"
  dir_parent :: "dir_ref option"

type_synonym database = "Directory option list"

text \<open>Reading through a pointer: the live object at the address, if there is one.\<close>

definition deref :: "database \<Rightarrow> dir_ref \<Rightarrow> Directory option" where
  "deref h r = (if r < length h then h ! r else None)"

text \<open>
  A write through a pointer, such as \<^verbatim>\<open>subdir->device = DEVICE_INARCHIVE\<close>. C++ references
  and the pointers used here always name live objects; a write through any other
  address is left without effect.
\<close>

definition update_dir :: "database \<Rightarrow> dir_ref \<Rightarrow> (Directory \<Rightarrow> Directory) \<Rightarrow> database" where
  "update_dir h r f = (case deref h r of None \<Rightarrow> h | Some n \<Rightarrow> h[r := Some (f n)])"

text \<open>
  Modelled from the spec: \<^verbatim>\<open>Directory::FindChild\<close> (Directory.hxx is not among the
  sources). The spec's find-child-by-name: the child of \<open>directory\<close> named \<open>nm\<close>, or
  none. Children are looked at in the order they were added.
\<close>

definition FindChild :: "database \<Rightarrow> dir_ref \<Rightarrow> string \<Rightarrow> dir_ref option" where
  "FindChild h directory nm =
     (case deref h directory of
        None \<Rightarrow> None
      | Some n \<Rightarrow>
          find (\<lambda>c. case deref h c of None \<Rightarrow> False | Some cn \<Rightarrow> dir_name cn = nm) (children n))"

text \<open>
  Modelled from the spec: \<^verbatim>\<open>Directory::CreateChild\<close> (Directory.hxx is not among the
  sources). The spec's create-child: a new directory object named \<open>nm\<close> is allocated and
  added to the children of \<open>directory\<close>. The new object has no modification time yet
  (0), an ordinary device, no content, and its parent back-reference set. The result is
  the database and the address of the new object.
\<close>

definition CreateChild :: "database \<Rightarrow> dir_ref \<Rightarrow> string \<Rightarrow> database \<times> dir_ref" where
  "CreateChild h directory nm =
     (let child = length h;
          h1 = h @ [Some \<lparr>dir_name = nm, mtime = 0, device = DEVICE_ID 0, children = [],
                          songs = [], dir_parent = Some directory\<rparr>]
      in (update_dir h1 directory (\<lambda>n. n\<lparr>children := children n @ [child]\<rparr>), child))"

text \<open>
  Modelled from the spec: \<^verbatim>\<open>Directory::MakeChild\<close> (Directory.hxx is not among the
  sources). The spec's find-or-create of a child by name.
\<close>

definition MakeChild :: "database \<Rightarrow> dir_ref \<Rightarrow> string \<Rightarrow> database \<times> dir_ref" where
  "MakeChild h directory nm =
     (case FindChild h directory nm of
        Some child \<Rightarrow> (h, child)
      | None \<Rightarrow> CreateChild h directory nm)"

text \<open>
  Modelled from the spec: \<^verbatim>\<open>Directory::FindSong\<close> (Directory.hxx is not among the
  sources). The spec's find-leaf-by-name: the leaf of \<open>directory\<close> named \<open>nm\<close>, or none.
\<close>

definition FindSong :: "database \<Rightarrow> dir_ref \<Rightarrow> string \<Rightarrow> Song option" where
  "FindSong h directory nm =
     (case deref h directory of
        None \<Rightarrow> None
      | Some n \<Rightarrow> find (\<lambda>s. uri s = nm) (songs n))"

text \<open>
  Modelled from the spec: \<^verbatim>\<open>Directory::AddSong\<close> (Directory.hxx is not among the
  sources). The spec's add-leaf: the leaf is attached to \<open>directory\<close>.
\<close>

definition AddSong :: "database \<Rightarrow> dir_ref \<Rightarrow> Song \<Rightarrow> database" where
  "AddSong h directory song = update_dir h directory (\<lambda>n. n\<lparr>songs := songs n @ [song]\<rparr>)"

text \<open>
  Modelled from the spec: the destruction of directory objects (Directory.hxx is not
  among the sources). The spec's delete-subtree is a cascading delete of all
  descendants: \<open>free_dirs\<close> destroys the objects of a work list, each together with its
  children. Every step frees a live cell or shortens the list, so the function is total
  on every store.
\<close>

function free_dirs :: "database \<Rightarrow> dir_ref list \<Rightarrow> database" where
  "free_dirs h [] = h"
| "free_dirs h (r # rs) =
     (case deref h r of
        None \<Rightarrow> free_dirs h rs
      | Some n \<Rightarrow> free_dirs (h[r := None]) (children n @ rs))"
  by pat_completeness auto
termination
proof (relation "measures [\<lambda>(h, rs). length (filter (\<lambda>x. x \<noteq> None) h), \<lambda>(h, rs). length rs]")
  show "wf (measures [\<lambda>(h, rs). length (filter (\<lambda>x. x \<noteq> None) h), \<lambda>(h, rs). length rs])"
    by simp
next
  fix h :: database and r rs
  show "((h, rs), (h, r # rs)) \<in> measures [\<lambda>(h, rs). length (filter (\<lambda>x. x \<noteq> None) h), \<lambda>(h, rs). length rs]"
    by simp
next
  fix h :: database and r rs n
  assume "deref h r = Some n"
  then have r: "r < length h" and live: "h ! r = Some n"
    by (auto simp: deref_def split: if_splits)
  have h: "h = take r h @ Some n # drop (Suc r) h"
    using r live by (metis id_take_nth_drop)
  have "h[r := None] = take r h @ None # drop (Suc r) h"
    using r by (simp add: upd_conv_take_nth_drop)
  then have "length (filter (\<lambda>x. x \<noteq> None) (h[r := None])) =
             length (filter (\<lambda>x. x \<noteq> None) (take r h)) + length (filter (\<lambda>x. x \<noteq> None) (drop (Suc r) h))"
    by simp
  moreover have "length (filter (\<lambda>x. x \<noteq> None) h) =
             length (filter (\<lambda>x. x \<noteq> None) (take r h)) + Suc (length (filter (\<lambda>x. x \<noteq> None) (drop (Suc r) h)))"
    by (subst h) simp
  ultimately show "((h[r := None], children n @ rs), (h, r # rs)) \<in>
      measures [\<lambda>(h, rs). length (filter (\<lambda>x. x \<noteq> None) h), \<lambda>(h, rs). length rs]"
    by simp
qed

text \<open>
  Modelled from the spec: \<^verbatim>\<open>DatabaseEditor::DeleteDirectory\<close> (the editor is not among the
  sources). The spec's delete-subtree: the object and everything below it are
  destroyed, and the object is taken out of the children of its parent.
\<close>

definition DeleteDirectory :: "database \<Rightarrow> dir_ref \<Rightarrow> database" where
  "DeleteDirectory h directory =
     (case deref h directory of
        None \<Rightarrow> h
      | Some n \<Rightarrow>
          (let h1 = free_dirs h [directory] in
           case dir_parent n of
             None \<Rightarrow> h1
           | Some p \<Rightarrow> update_dir h1 p (\<lambda>pn. pn\<lparr>children := removeAll directory (children pn)\<rparr>)))"

text \<open>
  The wrappers \<^verbatim>\<open>LockFindChild\<close>, \<^verbatim>\<open>LockMakeChild\<close> and \<^verbatim>\<open>LockFindSong\<close> of Archive.cxx
  take the database lock around one accessor call. One updater runs at a time, so the
  lock has no effect on the result.
\<close>

definition LockFindChild :: "database \<Rightarrow> dir_ref \<Rightarrow> string \<Rightarrow> dir_ref option" where
  "LockFindChild h directory nm = FindChild h directory nm"

definition LockMakeChild :: "database \<Rightarrow> dir_ref \<Rightarrow> string \<Rightarrow> database \<times> dir_ref" where
  "LockMakeChild h directory nm = MakeChild h directory nm"

definition LockFindSong :: "database \<Rightarrow> dir_ref \<Rightarrow> string \<Rightarrow> Song option" where
  "LockFindSong h directory nm = FindSong h directory nm"

definition LockDeleteDirectory :: "database \<Rightarrow> dir_ref \<Rightarrow> database" where
  "LockDeleteDirectory h directory = DeleteDirectory h directory"

section \<open>Updating the database from an archive (src/db/update/Archive.cxx)\<close>

text \<open>
  The collaborators of the update walk, as parameters: \<^verbatim>\<open>Directory::GetPath\<close>, the
  storage (\<^verbatim>\<open>MapChildFS\<close>; \<open>None\<close> is a null path), the archive plugin API
  (\<^verbatim>\<open>archive_plugin_from_suffix\<close>; \<^verbatim>\<open>archive_file_open\<close>, which gives an error or the
  open archive, here the entry paths it will visit), and the parsing of one archive
  member into the metadata of a song.
\<close>

datatype leaf_load = Parsed string | Unparsable | Raises string

record collaborators =
  GetPath :: "database \<Rightarrow> dir_ref \<Rightarrow> string"
  MapChildFS :: "string \<Rightarrow> string \<Rightarrow> string option"
  archive_plugin_from_suffix :: "string \<Rightarrow> string option"
  archive_file_open :: "string \<Rightarrow> string \<Rightarrow> string + string list"
  load_song :: "database \<Rightarrow> string \<Rightarrow> dir_ref \<Rightarrow> leaf_load"

text \<open>
  Modelled from the spec: \<^verbatim>\<open>Song::LoadFile\<close> (Song.hxx is not among the sources). Given
  the storage, the entry name and the parent directory it returns a populated leaf,
  named by the entry, or none when the entry cannot be parsed; the spec also provides
  for a leaf load that throws. \<open>Inl\<close> is the exception.
\<close>

definition Song_LoadFile :: "collaborators \<Rightarrow> database \<Rightarrow> string \<Rightarrow> dir_ref \<Rightarrow> string + Song option" where
  "Song_LoadFile env h nm directory =
     (case load_song env h nm directory of
        Parsed t \<Rightarrow> Inr (Some \<lparr>uri = nm, tag = t\<rparr>)
      | Unparsable \<Rightarrow> Inr None
      | Raises e \<Rightarrow> Inl e)"

text \<open>
  The \<^verbatim>\<open>UpdateWalk\<close> object with the database it works on. A member function returns
  the walk as it leaves it: \<open>Return\<close> for a normal return, \<open>Throw\<close> when an exception of
  a callee passes through (the code catches none).
\<close>

record UpdateWalk =
  db :: database
  modified :: bool
  walk_discard :: bool
  events :: "event list"

datatype 'a exit = Return 'a | Throw string 'a

fun state_of :: "'a exit \<Rightarrow> 'a" where
  "state_of (Return w) = w"
| "state_of (Throw e w) = w"

text \<open>
  \<^verbatim>\<open>strchr\<close> gives the rest of the string from the first occurrence on, as the pointer
  does; \<^verbatim>\<open>StringIsEmpty\<close> tests for the empty string.
\<close>

fun strchr :: "string \<Rightarrow> char \<Rightarrow> string option" where
  "strchr [] c = None"
| "strchr (x # xs) c = (if x = c then Some (x # xs) else strchr xs c)"

definition StringIsEmpty :: "string \<Rightarrow> bool" where
  "StringIsEmpty s = (s = [])"

text \<open>
  \<^verbatim>\<open>UpdateWalk::UpdateArchiveTree\<close>. With a slash in \<open>name\<close>: \<open>child_name\<close> is the part
  before the first slash (\<^verbatim>\<open>std::string(name, tmp)\<close>), the child is found or made and
  marked, and the function recurses into it with the part after the slash
  (\<^verbatim>\<open>tmp + 1\<close>). Without a slash: an empty name is a warning; otherwise the song is
  looked up, and loaded and added when it is not there.
\<close>

function UpdateArchiveTree :: "collaborators \<Rightarrow> UpdateWalk \<Rightarrow> dir_ref \<Rightarrow> string \<Rightarrow> UpdateWalk exit" where
  "UpdateArchiveTree env w directory name =
     (case strchr name CHR ''/'' of
        Some tmp \<Rightarrow>
          (let child_name = take (length name - length tmp) name;
               (h1, subdir) = LockMakeChild (db w) directory child_name;
               h2 = update_dir h1 subdir (\<lambda>n. n\<lparr>device := DEVICE_INARCHIVE\<rparr>)
           in UpdateArchiveTree env (w\<lparr>db := h2\<rparr>) subdir (tl tmp))
      | None \<Rightarrow>
          if StringIsEmpty name
          then Return (w\<lparr>events := events w @ [LogWarning ''archive returned directory only'']\<rparr>)
          else (case LockFindSong (db w) directory name of
                  Some song \<Rightarrow> Return w
                | None \<Rightarrow>
                    (case Song_LoadFile env (db w) name directory of
                       Inl e \<Rightarrow> Throw e w
                     | Inr None \<Rightarrow> Return w
                     | Inr (Some song) \<Rightarrow>
                         Return (w\<lparr>db := AddSong (db w) directory song,
                                   modified := True,
                                   events := events w @
                                     [FormatDefault (''added '' @ GetPath env (db w) directory @ ''/'' @ name)]\<rparr>))))"
  by pat_completeness auto
termination
proof (relation "measure (\<lambda>(env, w, directory, name). length name)")
  show "wf (measure (\<lambda>(env, w, directory, name). length name))"
    by simp
next
  fix env :: collaborators and w :: UpdateWalk and directory :: dir_ref and name tmp :: string
  assume "strchr name CHR ''/'' = Some tmp"
  then have "length (tl tmp) < length name"
    by (induction name) (auto split: if_splits)
  then show "((env, w\<lparr>db := h2\<rparr>, subdir, tl tmp), (env, w, directory, name))
      \<in> measure (\<lambda>(env, w, directory, name). length name)" for h2 subdir
    by simp
qed

declare UpdateArchiveTree.simps [simp del]

text \<open>
  \<^verbatim>\<open>UpdateArchiveVisitor::VisitArchiveEntry\<close>, the callback handed to the archive.
\<close>

definition VisitArchiveEntry :: "collaborators \<Rightarrow> UpdateWalk \<Rightarrow> dir_ref \<Rightarrow> string \<Rightarrow> UpdateWalk exit" where
  "VisitArchiveEntry env w directory path_utf8 =
     UpdateArchiveTree env
       (w\<lparr>events := events w @ [FormatDebug (''adding archive file: '' @ path_utf8)]\<rparr>)
       directory path_utf8"

text \<open>
  Modelled from the spec: \<^verbatim>\<open>ArchiveFile::Visit\<close> (the archive plugins are not among the
  sources). It is synchronous and calls the visitor once per entry, in the reader's
  order; an exception of the callback ends the visit.
\<close>

fun Visit :: "collaborators \<Rightarrow> UpdateWalk \<Rightarrow> dir_ref \<Rightarrow> string list \<Rightarrow> UpdateWalk exit" where
  "Visit env w directory [] = Return w"
| "Visit env w directory (path_utf8 # entries) =
     (case VisitArchiveEntry env w directory path_utf8 of
        Return w1 \<Rightarrow> Visit env w1 directory entries
      | Throw e w1 \<Rightarrow> Throw e w1)"

record StorageFileInfo =
  info_mtime :: int

text \<open>
  \<^verbatim>\<open>UpdateWalk::UpdateArchiveFile\<close> for a resolved plugin. Each call of
  \<^verbatim>\<open>archive_file_open\<close> and of \<^verbatim>\<open>ArchiveFile::Close\<close> is recorded as an event.
\<close>

definition UpdateArchiveFile ::
  "collaborators \<Rightarrow> UpdateWalk \<Rightarrow> dir_ref \<Rightarrow> string \<Rightarrow> StorageFileInfo \<Rightarrow> string \<Rightarrow> UpdateWalk exit" where
  "UpdateArchiveFile env w parent name info plugin =
     (let directory = LockFindChild (db w) parent name in
      if (case directory of
            None \<Rightarrow> False
          | Some d \<Rightarrow> (case deref (db w) d of None \<Rightarrow> False | Some n \<Rightarrow> mtime n = info_mtime info))
         \<and> \<not> walk_discard w
      then Return w
      else
        (case MapChildFS env (GetPath env (db w) parent) name of
           None \<Rightarrow> Return w
         | Some path_fs \<Rightarrow>
             (let w1 = w\<lparr>events := events w @ [ArchiveFile_Open path_fs]\<rparr> in
              case archive_file_open env plugin path_fs of
                Inl error \<Rightarrow>
                  (let w2 = w1\<lparr>events := events w1 @ [LogError error]\<rparr> in
                   case directory of
                     None \<Rightarrow> Return w2
                   | Some d \<Rightarrow> Return (w2\<lparr>db := LockDeleteDirectory (db w2) d\<rparr>))
              | Inr file \<Rightarrow>
                  (let w2 = w1\<lparr>events := events w1 @ [FormatDebug (''archive '' @ path_fs @ '' opened'')]\<rparr>;
                       (w3, d) =
                         (case directory of
                            None \<Rightarrow>
                              (let (h1, c) = CreateChild (db w2) parent name in
                               (w2\<lparr>events := events w2 @ [FormatDebug (''creating archive directory: '' @ name)],
                                   db := update_dir h1 c (\<lambda>n. n\<lparr>device := DEVICE_INARCHIVE\<rparr>)\<rparr>, c))
                          | Some d \<Rightarrow> (w2, d));
                       w4 = w3\<lparr>db := update_dir (db w3) d (\<lambda>n. n\<lparr>mtime := info_mtime info\<rparr>)\<rparr>
                   in case Visit env w4 d file of
                        Throw e w5 \<Rightarrow> Throw e w5
                      | Return w5 \<Rightarrow> Return (w5\<lparr>events := events w5 @ [ArchiveFile_Close]\<rparr>)))))"

text \<open>
  The overload that resolves the plugin from the file name suffix; its result tells
  whether a plugin took the file.
\<close>

definition UpdateArchiveFile_suffix ::
  "collaborators \<Rightarrow> UpdateWalk \<Rightarrow> dir_ref \<Rightarrow> string \<Rightarrow> string \<Rightarrow> StorageFileInfo \<Rightarrow> bool \<times> UpdateWalk exit" where
  "UpdateArchiveFile_suffix env w directory name sfx info =
     (case archive_plugin_from_suffix env sfx of
        None \<Rightarrow> (False, Return w)
      | Some plugin \<Rightarrow> (True, UpdateArchiveFile env w directory name info plugin))"

section \<open>Vocabulary of the statements about the archive update\<close>

text \<open>
  What grafting may do to a directory that exists already, and to the store: a
  directory keeps its name, modification time and parent; its children and songs are
  only added to, at the end; its device either stays or becomes \<^verbatim>\<open>DEVICE_INARCHIVE\<close>.
  The store only grows, live objects stay live and deleted ones stay deleted.
\<close>

definition dir_le :: "Directory \<Rightarrow> Directory \<Rightarrow> bool" where
  "dir_le n n' \<longleftrightarrow>
     dir_name n' = dir_name n \<and> mtime n' = mtime n \<and> dir_parent n' = dir_parent n \<and>
     prefix (children n) (children n') \<and> prefix (songs n) (songs n') \<and>
     (device n' = device n \<or> device n' = DEVICE_INARCHIVE)"

definition db_le :: "database \<Rightarrow> database \<Rightarrow> bool" where
  "db_le h h' \<longleftrightarrow>
     length h \<le> length h' \<and>
     (\<forall>r n. deref h r = Some n \<longrightarrow> (\<exists>n'. deref h' r = Some n' \<and> dir_le n n')) \<and>
     (\<forall>r. r < length h \<longrightarrow> deref h r = None \<longrightarrow> deref h' r = None)"

text \<open>
  The segments of an entry path: the parts between the slashes, in order. A trailing
  slash gives an empty last segment.
\<close>

fun segments :: "string \<Rightarrow> string list" where
  "segments [] = [[]]"
| "segments (c # cs) =
     (if c = CHR ''/'' then [] # segments cs
      else (case segments cs of [] \<Rightarrow> [[c]] | s # ss \<Rightarrow> (c # s) # ss))"


text \<open>
  Concrete data for the examples: collaborators that map every archive to a local
  path, open it to three entries and load every member; a root directory; and a walk
  over a database that holds only the root.
\<close>

definition example_env :: collaborators where
  "example_env =
     \<lparr>GetPath = (\<lambda>h r. ''music''),
      MapChildFS = (\<lambda>p n. Some (p @ ''/'' @ n)),
      archive_plugin_from_suffix = (\<lambda>s. Some s),
      archive_file_open = (\<lambda>pl p. Inr [''a/b.it'', ''a/c.it'', ''d.mod'']),
      load_song = (\<lambda>h n d. Parsed ''tag'')\<rparr>"

definition example_root :: Directory where
  "example_root = \<lparr>dir_name = ''music'', mtime = 0, device = DEVICE_ID 1, children = [],
                    songs = [], dir_parent = None\<rparr>"

definition example_walk :: UpdateWalk where
  "example_walk = \<lparr>db = [Some example_root], modified = False, walk_discard = False, events = []\<rparr>"

text \<open>
  Two invariants of a well-formed database. \<open>refs_ok\<close>: every child reference of a
  live directory is an address of the store. \<open>songs_ok\<close>: no directory holds two songs
  of one name.
\<close>

definition refs_ok :: "database \<Rightarrow> bool" where
  "refs_ok h =
     list_all (\<lambda>x. case x of None \<Rightarrow> True | Some n \<Rightarrow> list_all (\<lambda>c. c < length h) (children n)) h"





text \<open>
  \<open>descendant h d r\<close>: the object at \<open>r\<close> belongs to the subtree of \<open>d\<close> in the store
  \<open>h\<close>; it is \<open>d\<close> or is reached from \<open>d\<close> through children of live objects.
\<close>

inductive descendant :: "database \<Rightarrow> dir_ref \<Rightarrow> dir_ref \<Rightarrow> bool" for h d where
  self: "descendant h d d"
| child: "descendant h d r \<Longrightarrow> deref h r = Some n \<Longrightarrow> c \<in> set (children n) \<Longrightarrow> descendant h d c"

text \<open>
  The paths through \<^verbatim>\<open>UpdateArchiveFile\<close>. \<open>archive_up_to_date\<close> is the condition of
  its first \<^verbatim>\<open>if\<close>: the archive's directory exists with the modification time of the
  file and no rescan is forced. \<open>open_fails\<close>: the call gets as far as
  \<^verbatim>\<open>archive_file_open\<close>, and that call fails.
\<close>

definition archive_up_to_date :: "UpdateWalk \<Rightarrow> dir_ref \<Rightarrow> string \<Rightarrow> StorageFileInfo \<Rightarrow> bool" where
  "archive_up_to_date w parent name info =
     ((case FindChild (db w) parent name of
         None \<Rightarrow> False
       | Some d \<Rightarrow> (case deref (db w) d of None \<Rightarrow> False | Some n \<Rightarrow> mtime n = info_mtime info))
      \<and> \<not> walk_discard w)"

definition open_fails ::
  "collaborators \<Rightarrow> UpdateWalk \<Rightarrow> dir_ref \<Rightarrow> string \<Rightarrow> StorageFileInfo \<Rightarrow> string \<Rightarrow> bool" where
  "open_fails env w parent name info plugin =
     (\<not> archive_up_to_date w parent name info \<and>
      (case MapChildFS env (GetPath env (db w) parent) name of
         None \<Rightarrow> False
       | Some path_fs \<Rightarrow> (case archive_file_open env plugin path_fs of Inl e \<Rightarrow> True | Inr f \<Rightarrow> False)))"

text \<open>The events that are calls of the archive API: open and close.\<close>

fun is_archive_io :: "event \<Rightarrow> bool" where
  "is_archive_io (ArchiveFile_Open p) = True"
| "is_archive_io ArchiveFile_Close = True"
| "is_archive_io e = False"

text \<open>
  More data for the examples: collaborators whose loader cannot parse any member,
  whose loader parses only members named \<open>b.it\<close>, whose loader raises, whose archive
  does not open, and whose storage is not local;
  and a walk over a database that holds an archive \<open>m.zip\<close> synced at modification
  time 5, with the leaf \<open>d.mod\<close> and the directory \<open>a\<close> holding \<open>b.it\<close> and \<open>c.it\<close>.
\<close>

definition example_env_unparsable :: collaborators where
  "example_env_unparsable = example_env\<lparr>load_song := (\<lambda>h n d. Unparsable)\<rparr>"

definition example_env_picky :: collaborators where
  "example_env_picky =
     example_env\<lparr>load_song := (\<lambda>h n d. if n = ''b.it'' then Parsed ''tag'' else Unparsable)\<rparr>"

definition example_env_raises :: collaborators where
  "example_env_raises = example_env\<lparr>load_song := (\<lambda>h n d. Raises ''bad member'')\<rparr>"

definition example_env_broken :: collaborators where
  "example_env_broken = example_env\<lparr>archive_file_open := (\<lambda>pl p. Inl ''corrupt'')\<rparr>"

definition example_env_remote :: collaborators where
  "example_env_remote = example_env\<lparr>MapChildFS := (\<lambda>p n. None)\<rparr>"

definition example_synced :: UpdateWalk where
  "example_synced =
     \<lparr>db = [Some \<lparr>dir_name = ''music'', mtime = 0, device = DEVICE_ID 1, children = [1],
                   songs = [], dir_parent = None\<rparr>,
             Some \<lparr>dir_name = ''m.zip'', mtime = 5, device = DEVICE_INARCHIVE, children = [2],
                   songs = [\<lparr>uri = ''d.mod'', tag = ''tag''\<rparr>], dir_parent = Some 0\<rparr>,
             Some \<lparr>dir_name = ''a'', mtime = 0, device = DEVICE_INARCHIVE, children = [],
                   songs = [\<lparr>uri = ''b.it'', tag = ''tag''\<rparr>, \<lparr>uri = ''c.it'', tag = ''tag''\<rparr>],
                   dir_parent = Some 1\<rparr>],
      modified = False, walk_discard = False, events = []\<rparr>"

section \<open>Properties of the UPnP reference counter\<close>

lemma ref_pos_iff: "0 < (w :: 32 word) \<longleftrightarrow> w \<noteq> 0"
  by (simp add: word_gt_0)

lemma ref_dec_zero_iff: "(w :: 32 word) - 1 = 0 \<longleftrightarrow> w = 1"
  by auto

lemma balanced_finishes_le: "balanced n ops \<Longrightarrow> finishes ops \<le> n + inits ops"
  by (induction n ops rule: balanced.induct) auto

lemma peak_ge: "n \<le> peak n ops"
  by (induction n ops rule: peak.induct) auto

lemma upnp_run_invariant:
  "balanced (unat (upnp_ref s)) ops \<Longrightarrow> peak (unat (upnp_ref s)) ops < 2 ^ 32 \<Longrightarrow>
   (lib_initialized s \<longleftrightarrow> 0 < upnp_ref s) \<Longrightarrow>
   (case upnp_run ops s of
      Inr s1 \<Rightarrow> unat (upnp_ref s1) = unat (upnp_ref s) + inits ops - finishes ops \<and>
               (lib_initialized s1 \<longleftrightarrow> 0 < upnp_ref s1)
    | Inl e \<Rightarrow> \<not> init_codes_ok ops \<and>
               (\<exists>s1. e = RuntimeError s1 \<and> upnp_ref s1 = 0 \<and> \<not> lib_initialized s1))"
proof (induction ops arbitrary: s)
  case Nil
  then show ?case by simp
next
  case (Cons x xs)
  show ?case
  proof (cases x)
    case (GlobalInit code)
    show ?thesis
    proof (cases "upnp_ref s = 0 \<and> code \<noteq> UPNP_E_SUCCESS")
      case True
      then have "UpnpGlobalInit code s = Inl (RuntimeError (s\<lparr>lib_calls := lib_calls s @ [UpnpInit]\<rparr>))"
        by (simp add: UpnpGlobalInit_def DoInit_def Let_def)
      with True Cons.prems(3) GlobalInit show ?thesis
        by simp
    next
      case False
      from Cons.prems GlobalInit have pk: "peak (Suc (unat (upnp_ref s))) xs < 2 ^ 32"
        by simp
      with peak_ge [of "Suc (unat (upnp_ref s))" xs] have small: "unat (upnp_ref s) + 1 < 2 ^ 32"
        by simp
      have inc: "unat (upnp_ref s + 1) = Suc (unat (upnp_ref s))"
        using small by (simp add: unat_word_ariths)
      obtain s1 where s1: "UpnpGlobalInit code s = Inr s1"
        and ref1: "upnp_ref s1 = upnp_ref s + 1"
        and up1: "lib_initialized s1 \<longleftrightarrow> (upnp_ref s = 0 \<or> lib_initialized s)"
        using False by (cases "upnp_ref s = 0") (simp_all add: UpnpGlobalInit_def DoInit_def Let_def)
      have pos1: "0 < upnp_ref s1"
        using inc ref1 by (simp add: word_less_nat_alt)
      have inv1: "lib_initialized s1 \<longleftrightarrow> 0 < upnp_ref s1"
        using pos1 up1 Cons.prems(3) by (auto simp: ref_pos_iff)
      have "case upnp_run xs s1 of
              Inr s2 \<Rightarrow> unat (upnp_ref s2) = unat (upnp_ref s1) + inits xs - finishes xs \<and>
                       (lib_initialized s2 \<longleftrightarrow> 0 < upnp_ref s2)
            | Inl e \<Rightarrow> \<not> init_codes_ok xs \<and>
                       (\<exists>s2. e = RuntimeError s2 \<and> upnp_ref s2 = 0 \<and> \<not> lib_initialized s2)"
        using Cons.prems GlobalInit pk inv1 inc ref1
        by (intro Cons.IH) simp_all
      then show ?thesis
        using s1 GlobalInit inc ref1 by (auto split: sum.splits)
    qed
  next
    case GlobalFinish
    from Cons.prems GlobalFinish have pos: "0 < unat (upnp_ref s)"
      and bal: "balanced (unat (upnp_ref s) - 1) xs"
      and pk: "peak (unat (upnp_ref s) - 1) xs < 2 ^ 32"
      by simp_all
    have nz: "upnp_ref s \<noteq> 0"
      using pos by auto
    have dec: "unat (upnp_ref s - 1) = unat (upnp_ref s) - 1"
      using nz by (simp add: unat_minus_one)
    obtain s1 where s1: "UpnpGlobalFinish s = Inr s1"
      and ref1: "upnp_ref s1 = upnp_ref s - 1"
      and up1: "lib_initialized s1 \<longleftrightarrow> (upnp_ref s - 1 \<noteq> 0 \<and> lib_initialized s)"
      using nz by (cases "upnp_ref s - 1 = 0")
        (simp_all add: UpnpGlobalFinish_def Let_def ref_pos_iff)
    have inv1: "lib_initialized s1 \<longleftrightarrow> 0 < upnp_ref s1"
      using up1 ref1 Cons.prems(3) nz by (auto simp: ref_pos_iff ref_dec_zero_iff)
    have le: "finishes xs \<le> unat (upnp_ref s) - 1 + inits xs"
      using balanced_finishes_le [OF bal] .
    have "case upnp_run xs s1 of
            Inr s2 \<Rightarrow> unat (upnp_ref s2) = unat (upnp_ref s1) + inits xs - finishes xs \<and>
                     (lib_initialized s2 \<longleftrightarrow> 0 < upnp_ref s2)
          | Inl e \<Rightarrow> \<not> init_codes_ok xs \<and>
                     (\<exists>s2. e = RuntimeError s2 \<and> upnp_ref s2 = 0 \<and> \<not> lib_initialized s2)"
      using bal pk inv1 dec ref1
      by (intro Cons.IH) simp_all
    then show ?thesis
      using s1 GlobalFinish dec ref1 pos le by (auto split: sum.splits)
  qed
qed

lemma UpnpGlobalInit_invokes:
  "invokes (UpnpGlobalInit code s) s UpnpInit \<longleftrightarrow> upnp_ref s = 0"
  by (simp add: invokes_def UpnpGlobalInit_def DoInit_def Let_def)

lemma UpnpGlobalFinish_invokes:
  "invokes (UpnpGlobalFinish s) s UpnpFinish \<longleftrightarrow> upnp_ref s = 1"
proof (cases "upnp_ref s = 0")
  case True
  then show ?thesis by (simp add: invokes_def UpnpGlobalFinish_def)
next
  case False
  with ref_dec_zero_iff [of "upnp_ref s"] show ?thesis
    by (auto simp: invokes_def UpnpGlobalFinish_def Let_def ref_pos_iff)
qed

lemma UpnpGlobalFinish_assert:
  "UpnpGlobalFinish s = Inl AssertionFailure \<longleftrightarrow> upnp_ref s = 0"
  by (auto simp: UpnpGlobalFinish_def Let_def ref_pos_iff split: if_splits)

lemma balanced_replicate_inits: "balanced n (replicate k (GlobalInit code))"
  by (induction k arbitrary: n) simp_all

lemma inits_replicate: "inits (replicate k (GlobalInit code)) = k"
  by (induction k) simp_all

lemma finishes_replicate: "finishes (replicate k (GlobalInit code)) = 0"
  by (induction k) simp_all

lemma upnp_run_replicate_inits:
  "lib_initialized s \<Longrightarrow>
   \<exists>s1. upnp_run (replicate k (GlobalInit UPNP_E_SUCCESS)) s = Inr s1 \<and>
        upnp_ref s1 = upnp_ref s + of_nat k \<and> lib_initialized s1"
proof (induction k arbitrary: s)
  case 0
  then show ?case by simp
next
  case (Suc k)
  obtain s1 where s1: "UpnpGlobalInit UPNP_E_SUCCESS s = Inr s1"
    and ref1: "upnp_ref s1 = upnp_ref s + 1" and "lib_initialized s1"
    using Suc.prems by (cases "upnp_ref s = 0") (simp_all add: UpnpGlobalInit_def DoInit_def Let_def)
  with Suc.IH [of s1] show ?case
    by (auto simp: algebra_simps)
qed

lemma init_codes_ok_replicate: "init_codes_ok (replicate k (GlobalInit UPNP_E_SUCCESS))"
  by (induction k) simp_all

lemma upnp_run_wraps:
  assumes "0 < k" and "of_nat k = (0 :: 32 word)"
  shows "\<exists>s. upnp_run (replicate k (GlobalInit UPNP_E_SUCCESS)) upnp_initial = Inr s \<and>
             upnp_ref s = 0 \<and> lib_initialized s"
proof -
  obtain j where k: "k = Suc j"
    using assms(1) by (cases k) simp_all
  obtain s1 where s1: "UpnpGlobalInit UPNP_E_SUCCESS upnp_initial = Inr s1"
    and r1: "upnp_ref s1 = 1" and l1: "lib_initialized s1"
    by (simp add: upnp_initial_def UpnpGlobalInit_def DoInit_def Let_def)
  from upnp_run_replicate_inits [OF l1, of j] obtain s
    where "upnp_run (replicate j (GlobalInit UPNP_E_SUCCESS)) s1 = Inr s"
      and "upnp_ref s = upnp_ref s1 + of_nat j" and "lib_initialized s"
    by blast
  then show ?thesis
    using s1 r1 assms(2) by (simp add: k)
qed

text \<open>
  C9. The counter does not equal the number of \<^verbatim>\<open>UpnpGlobalInit\<close> calls minus the number
  of \<^verbatim>\<open>UpnpGlobalFinish\<close> calls after every balanced sequence: a call whose \<^verbatim>\<open>UpnpInit\<close>
  fails throws before the increment, and the counter is a 32-bit word that wraps. What
  holds: start from a state with the counter at 0 and the library not initialised (the
  initial state, or the state a failed initialisation leaves), and take any sequence of
  calls in which no prefix finishes more often than it initialises and in which fewer
  than \<open>2 ^ 32\<close> references are held at any time. Then either every call returns, and
  afterwards the counter equals the number of \<^verbatim>\<open>UpnpGlobalInit\<close> calls minus the number
  of \<^verbatim>\<open>UpnpGlobalFinish\<close> calls, the library is initialised exactly when the counter is
  positive, the next \<^verbatim>\<open>UpnpGlobalInit\<close> reaches \<^verbatim>\<open>UpnpInit\<close> exactly when the counter is 0,
  the next \<^verbatim>\<open>UpnpGlobalFinish\<close> reaches \<^verbatim>\<open>UpnpFinish\<close> exactly when the counter is 1, and
  \<^verbatim>\<open>UpnpGlobalFinish\<close> fails its assertion exactly when the counter is not positive on
  entry; or the sequence stops at a \<^verbatim>\<open>UpnpGlobalInit\<close> that throws, which happens only if
  some \<^verbatim>\<open>UpnpInit\<close> code of the sequence is a failure, and which leaves the counter at 0
  and the library not initialised. No call of such a sequence fails the assertion.
\<close>

theorem upnp_ref_counts:
  assumes "upnp_ref s0 = 0" and "\<not> lib_initialized s0"
    and "balanced 0 ops" and "peak 0 ops < 2 ^ 32"
  shows "case upnp_run ops s0 of
           Inr s \<Rightarrow> unat (upnp_ref s) = inits ops - finishes ops \<and>
                   (lib_initialized s \<longleftrightarrow> 0 < upnp_ref s) \<and>
                   (\<forall>code. invokes (UpnpGlobalInit code s) s UpnpInit \<longleftrightarrow> upnp_ref s = 0) \<and>
                   (invokes (UpnpGlobalFinish s) s UpnpFinish \<longleftrightarrow> upnp_ref s = 1) \<and>
                   (UpnpGlobalFinish s = Inl AssertionFailure \<longleftrightarrow> \<not> 0 < upnp_ref s)
         | Inl e \<Rightarrow> \<not> init_codes_ok ops \<and>
                   (\<exists>s1. e = RuntimeError s1 \<and> upnp_ref s1 = 0 \<and> \<not> lib_initialized s1)"
proof -
  have "case upnp_run ops s0 of
          Inr s1 \<Rightarrow> unat (upnp_ref s1) = unat (upnp_ref s0) + inits ops - finishes ops \<and>
                   (lib_initialized s1 \<longleftrightarrow> 0 < upnp_ref s1)
        | Inl e \<Rightarrow> \<not> init_codes_ok ops \<and>
                   (\<exists>s1. e = RuntimeError s1 \<and> upnp_ref s1 = 0 \<and> \<not> lib_initialized s1)"
    using assms by (intro upnp_run_invariant) simp_all
  then show ?thesis
    using assms(1) UpnpGlobalInit_invokes UpnpGlobalFinish_invokes UpnpGlobalFinish_assert
    by (auto simp: ref_pos_iff split: sum.splits)
qed

text \<open>
  Two balanced sequences after which the counter is not the number of initialisations
  minus the number of finishes. One \<^verbatim>\<open>UpnpGlobalInit\<close> whose \<^verbatim>\<open>UpnpInit\<close> fails: one call
  made, none finished, the counter is 0. And \<open>2 ^ 32\<close> calls of \<^verbatim>\<open>UpnpGlobalInit\<close> that
  all succeed: the counter has wrapped to 0 while the library is initialised.
\<close>

theorem upnp_ref_counts_counterexample:
  "balanced 0 [GlobalInit 1] \<and> inits [GlobalInit 1] - finishes [GlobalInit 1] = 1 \<and>
   upnp_run [GlobalInit 1] upnp_initial =
     Inl (RuntimeError \<lparr>upnp_ref = 0, lib_initialized = False, lib_calls = [UpnpInit]\<rparr>) \<and>
   balanced 0 (replicate (2 ^ 32) (GlobalInit UPNP_E_SUCCESS)) \<and>
   init_codes_ok (replicate (2 ^ 32) (GlobalInit UPNP_E_SUCCESS)) \<and>
   inits (replicate (2 ^ 32) (GlobalInit UPNP_E_SUCCESS)) -
     finishes (replicate (2 ^ 32) (GlobalInit UPNP_E_SUCCESS)) = 2 ^ 32 \<and>
   (\<exists>s. upnp_run (replicate (2 ^ 32) (GlobalInit UPNP_E_SUCCESS)) upnp_initial = Inr s \<and>
        upnp_ref s = 0 \<and> lib_initialized s)"
proof (intro conjI)
  show "balanced 0 [GlobalInit 1]"
    by simp
  show "inits [GlobalInit 1] - finishes [GlobalInit 1] = 1"
    by simp
  show "upnp_run [GlobalInit 1] upnp_initial =
     Inl (RuntimeError \<lparr>upnp_ref = 0, lib_initialized = False, lib_calls = [UpnpInit]\<rparr>)"
    by (simp add: upnp_initial_def UpnpGlobalInit_def DoInit_def UPNP_E_SUCCESS_def)
  show "balanced 0 (replicate (2 ^ 32) (GlobalInit UPNP_E_SUCCESS))"
    by (rule balanced_replicate_inits)
  show "init_codes_ok (replicate (2 ^ 32) (GlobalInit UPNP_E_SUCCESS))"
    by (rule init_codes_ok_replicate)
  show "inits (replicate (2 ^ 32) (GlobalInit UPNP_E_SUCCESS)) -
     finishes (replicate (2 ^ 32) (GlobalInit UPNP_E_SUCCESS)) = 2 ^ 32"
    by (simp only: inits_replicate finishes_replicate diff_zero)
  have "(0::nat) < 2 ^ 32"
    by simp
  moreover have "of_nat (2 ^ 32) = (0 :: 32 word)"
    by simp
  ultimately show "\<exists>s. upnp_run (replicate (2 ^ 32) (GlobalInit UPNP_E_SUCCESS)) upnp_initial = Inr s \<and>
        upnp_ref s = 0 \<and> lib_initialized s"
    by (rule upnp_run_wraps)
qed

theorem upnp_ref_counts_witness:
  "upnp_ref upnp_initial = 0 \<and> \<not> lib_initialized upnp_initial \<and>
   balanced 0 [GlobalInit 0, GlobalInit 0, GlobalFinish] \<and>
   peak 0 [GlobalInit 0, GlobalInit 0, GlobalFinish] < 2 ^ 32 \<and>
   (\<exists>s. upnp_run [GlobalInit 0, GlobalInit 0, GlobalFinish] upnp_initial = Inr s \<and>
        unat (upnp_ref s) = 1 \<and> lib_initialized s \<and>
        \<not> invokes (UpnpGlobalInit 0 s) s UpnpInit \<and>
        invokes (UpnpGlobalFinish s) s UpnpFinish)"
proof -
  have a: "upnp_ref upnp_initial = 0" and l: "\<not> lib_initialized upnp_initial"
    by (simp_all add: upnp_initial_def)
  have b: "balanced 0 [GlobalInit 0, GlobalInit 0, GlobalFinish]"
    by simp
  have c: "init_codes_ok [GlobalInit 0, GlobalInit 0, GlobalFinish]"
    by (simp add: UPNP_E_SUCCESS_def)
  have n: "peak 0 [GlobalInit 0, GlobalInit 0, GlobalFinish] < 2 ^ 32"
    by simp
  note t = upnp_ref_counts [OF a l b n]
  from t c obtain s
    where r: "upnp_run [GlobalInit 0, GlobalInit 0, GlobalFinish] upnp_initial = Inr s"
    by (cases "upnp_run [GlobalInit 0, GlobalInit 0, GlobalFinish] upnp_initial") auto
  from t have u: "unat (upnp_ref s) = 1"
    and i: "lib_initialized s \<longleftrightarrow> 0 < upnp_ref s"
    and j: "\<forall>code. invokes (UpnpGlobalInit code s) s UpnpInit \<longleftrightarrow> upnp_ref s = 0"
    and k: "invokes (UpnpGlobalFinish s) s UpnpFinish \<longleftrightarrow> upnp_ref s = 1"
    unfolding r by simp_all
  from u have "upnp_ref s = 1"
    by (metis unat_1 unsigned_word_eqI)
  with r u i j k a l b n show ?thesis
    by auto
qed

section \<open>Properties of the xmp module loader\<close>

lemma load_module_over_limit:
  "length buffer \<le> LIBXMP_FILE_LIMIT \<Longrightarrow>
   LIBXMP_FILE_LIMIT < length buffer + length (unread inp) \<Longrightarrow>
   \<exists>e. load_module inp buffer = Inl e"
proof (induction inp buffer rule: load_module.induct)
  case (1 inp buffer)
  obtain chunk inp1 where rd: "decoder_read inp 8192 = (chunk, inp1)"
    by (cases "decoder_read inp 8192")
  have parts: "chunk @ unread inp1 = unread inp"
    using rd by (auto simp: decoder_read_def Let_def)
  then have len: "length chunk + length (unread inp1) = length (unread inp)"
    by (metis length_append)
  show ?case
  proof (cases "length chunk = 0")
    case True
    with len "1.prems" have "unread inp1 \<noteq> []"
      by auto
    with True rd show ?thesis
      by (subst load_module.simps) (simp add: LockIsEOF_def)
  next
    case False
    show ?thesis
    proof (cases "length (buffer @ chunk) > LIBXMP_FILE_LIMIT")
      case True
      with False rd show ?thesis
        by (subst load_module.simps) simp
    next
      case small: False
      have "\<exists>e. load_module inp1 (buffer @ chunk) = Inl e"
      proof (rule "1.IH" [OF rd [symmetric] refl refl _ refl])
        show "length chunk \<noteq> 0" by (rule False)
        show "\<not> LIBXMP_FILE_LIMIT < length (buffer @ chunk)" by (rule small)
        show "length (buffer @ chunk) \<le> LIBXMP_FILE_LIMIT" using small by simp
        show "LIBXMP_FILE_LIMIT < length (buffer @ chunk) + length (unread inp1)"
          using "1.prems" len by simp
      qed
      with False small rd show ?thesis
        by (subst load_module.simps) (simp add: Let_def)
    qed
  qed
qed

text \<open>
  C10. For every input stream whose content exceeds \<open>LIBXMP_FILE_LIMIT\<close> bytes
  (100 * 1024 * 1024), \<^verbatim>\<open>Xmp::load_module\<close> throws instead of returning a buffer; so
  \<^verbatim>\<open>libxmp_scan_stream\<close> returns false and \<^verbatim>\<open>libxmp_stream_decode\<close> logs one warning
  and hands no decoded output to the decoder.
\<close>

theorem xmp_file_limit:
  assumes "LIBXMP_FILE_LIMIT < length (unread inp)"
  shows "(\<exists>e. load_module inp [] = Inl e) \<and>
         fst (libxmp_scan_stream lib inp) = False \<and>
         (\<exists>msg. libxmp_stream_decode lib cmds inp = [LogWarning msg]) \<and>
         filter is_decoded_output (libxmp_stream_decode lib cmds inp) = []"
proof -
  from assms obtain e where e: "load_module inp [] = Inl e"
    using load_module_over_limit [of "[]" inp] by auto
  then have "\<exists>e'. Xmp lib inp = Inl e'"
    by (simp add: Xmp_def)
  then obtain e' where "Xmp lib inp = Inl e'" ..
  with e show ?thesis
    by (simp add: libxmp_scan_stream_def libxmp_stream_decode_def)
qed

theorem xmp_file_limit_witness:
  "LIBXMP_FILE_LIMIT < length (unread \<lparr>unread = replicate (Suc LIBXMP_FILE_LIMIT) 0, grants = [], seekable = True\<rparr>) \<and>
   (\<exists>e. load_module \<lparr>unread = replicate (Suc LIBXMP_FILE_LIMIT) 0, grants = [], seekable = True\<rparr> [] = Inl e) \<and>
   fst (libxmp_scan_stream
     \<lparr>xmp_create_context = True, xmp_load_module_from_memory = (\<lambda>b. 0), xmp_start_player = 0,
      mod_duration = 1000, mod_name = None, mod_comment = None, xmp_play_frame = []\<rparr>
     \<lparr>unread = replicate (Suc LIBXMP_FILE_LIMIT) 0, grants = [], seekable = True\<rparr>) = False"
proof -
  have h: "LIBXMP_FILE_LIMIT < length (unread \<lparr>unread = replicate (Suc LIBXMP_FILE_LIMIT) 0, grants = [], seekable = True\<rparr>)"
    by simp
  show ?thesis
    using h xmp_file_limit [OF h] by simp
qed

section \<open>Properties of the archive update\<close>

subsection \<open>Strings and entry paths\<close>

lemmas lock_defs = LockFindChild_def LockMakeChild_def LockFindSong_def LockDeleteDirectory_def

lemma strchr_None_iff: "strchr s c = None \<longleftrightarrow> c \<notin> set s"
  by (induction s) auto

lemma strchr_split: "c \<notin> set pre \<Longrightarrow> strchr (pre @ c # rest) c = Some (c # rest)"
  by (induction pre) auto

lemma strchr_SomeD: "strchr s c = Some t \<Longrightarrow> \<exists>pre rest. s = pre @ c # rest \<and> c \<notin> set pre \<and> t = c # rest"
proof (induction s)
  case Nil
  then show ?case by simp
next
  case (Cons x xs)
  show ?case
  proof (cases "x = c")
    case True
    with Cons.prems have "x # xs = [] @ c # xs \<and> c \<notin> set [] \<and> t = c # xs"
      by simp
    then show ?thesis by blast
  next
    case False
    with Cons obtain pre rest where "xs = pre @ c # rest" "c \<notin> set pre" "t = c # rest"
      by auto
    with False have "x # xs = (x # pre) @ c # rest \<and> c \<notin> set (x # pre) \<and> t = c # rest"
      by simp
    then show ?thesis by blast
  qed
qed

lemma path_induct [case_names leaf slash]:
  assumes leaf: "\<And>name. CHR ''/'' \<notin> set name \<Longrightarrow> P name"
    and slash: "\<And>pre rest. CHR ''/'' \<notin> set pre \<Longrightarrow> P rest \<Longrightarrow> P (pre @ CHR ''/'' # rest)"
  shows "P name"
proof (induction name rule: length_induct)
  case (1 name)
  show ?case
  proof (cases "strchr name CHR ''/''")
    case None
    then show ?thesis by (simp add: leaf strchr_None_iff)
  next
    case (Some t)
    then obtain pre rest where s: "name = pre @ CHR ''/'' # rest" "CHR ''/'' \<notin> set pre"
      using strchr_SomeD by blast
    then have "P rest" using 1 by simp
    with s show ?thesis by (simp add: slash)
  qed
qed

lemma UpdateArchiveTree_slash:
  "CHR ''/'' \<notin> set pre \<Longrightarrow>
   UpdateArchiveTree env w directory (pre @ CHR ''/'' # rest) =
     (let (h1, subdir) = MakeChild (db w) directory pre;
          h2 = update_dir h1 subdir (\<lambda>n. n\<lparr>device := DEVICE_INARCHIVE\<rparr>)
      in UpdateArchiveTree env (w\<lparr>db := h2\<rparr>) subdir rest)"
  by (subst UpdateArchiveTree.simps) (simp add: strchr_split lock_defs)

lemma UpdateArchiveTree_leaf:
  "CHR ''/'' \<notin> set name \<Longrightarrow>
   UpdateArchiveTree env w directory name =
     (if name = []
      then Return (w\<lparr>events := events w @ [LogWarning ''archive returned directory only'']\<rparr>)
      else (case FindSong (db w) directory name of
              Some song \<Rightarrow> Return w
            | None \<Rightarrow>
                (case Song_LoadFile env (db w) name directory of
                   Inl e \<Rightarrow> Throw e w
                 | Inr None \<Rightarrow> Return w
                 | Inr (Some song) \<Rightarrow>
                     Return (w\<lparr>db := AddSong (db w) directory song,
                               modified := True,
                               events := events w @
                                 [FormatDefault (''added '' @ GetPath env (db w) directory @ ''/'' @ name)]\<rparr>))))"
  by (subst UpdateArchiveTree.simps) (simp add: strchr_None_iff [THEN iffD2] lock_defs StringIsEmpty_def)

lemma segments_not_Nil [simp]: "segments s \<noteq> []"
  by (induction s) (auto split: list.splits)





subsection \<open>The store and its accessors\<close>

lemma deref_less: "deref h r = Some n \<Longrightarrow> r < length h"
  by (simp add: deref_def split: if_splits)


lemma deref_in_set: "deref h r = Some n \<Longrightarrow> Some n \<in> set h"
  by (metis deref_def nth_mem option.simps(3))

lemma length_update_dir [simp]: "length (update_dir h r f) = length h"
  by (simp add: update_dir_def split: option.splits)

lemma deref_update_dir:
  "deref (update_dir h r f) r' = (if r' = r then map_option f (deref h r) else deref h r')"
  by (auto simp: update_dir_def deref_def split: option.splits)

lemma deref_append1:
  "deref (h @ [x]) r = (if r < length h then deref h r else if r = length h then x else None)"
  by (auto simp: deref_def nth_append)

lemma deref_list_update_None:
  "deref (h[r := None]) x = (if x = r then None else deref h x)"
  by (auto simp: deref_def)

lemma update_dir_same: "deref h r = Some n \<Longrightarrow> f n = n \<Longrightarrow> update_dir h r f = h"
  by (auto simp: update_dir_def deref_def split: if_splits) (metis list_update_id)

lemma find_None_append: "find P xs = None \<Longrightarrow> find P (xs @ ys) = find P ys"
  by (induction xs) (auto split: if_splits)

lemma find_Some_append: "find P xs = Some x \<Longrightarrow> find P (xs @ ys) = Some x"
  by (induction xs) (auto split: if_splits)

lemma FindChild_SomeD:
  "FindChild h directory nm = Some c \<Longrightarrow>
   \<exists>n cn. deref h directory = Some n \<and> c \<in> set (children n) \<and> deref h c = Some cn \<and> dir_name cn = nm"
  by (auto simp: FindChild_def find_Some_iff split: option.splits)

lemma FindChild_update_dir_keep:
  assumes "\<And>n. dir_name (f n) = dir_name n" and "\<And>n. children (f n) = children n"
  shows "FindChild (update_dir h r f) directory nm = FindChild h directory nm"
proof -
  have same: "(case deref (update_dir h r f) x of None \<Rightarrow> False | Some cn \<Rightarrow> dir_name cn = nm) =
              (case deref h x of None \<Rightarrow> False | Some cn \<Rightarrow> dir_name cn = nm)" for x
    using assms(1) by (auto simp: deref_update_dir split: option.splits)
  show ?thesis
  proof (cases "deref h directory")
    case None
    then show ?thesis
      by (auto simp: FindChild_def deref_update_dir)
  next
    case (Some n)
    then have "\<exists>n'. deref (update_dir h r f) directory = Some n' \<and> children n' = children n"
      using assms(2) by (auto simp: deref_update_dir)
    with Some show ?thesis
      by (auto simp: FindChild_def same)
  qed
qed




lemma MakeChild_child:
  assumes "deref h directory = Some n" and "MakeChild h directory nm = (h1, c)"
  shows "\<exists>pn cn. deref h1 directory = Some pn \<and> c \<in> set (children pn) \<and>
           deref h1 c = Some cn \<and> dir_name cn = nm"
proof (cases "FindChild h directory nm")
  case None
  with assms(2) have h1: "h1 = update_dir (h @ [Some \<lparr>dir_name = nm, mtime = 0, device = DEVICE_ID 0, children = [],
                          songs = [], dir_parent = Some directory\<rparr>]) directory (\<lambda>n. n\<lparr>children := children n @ [length h]\<rparr>)"
    and c: "c = length h"
    by (auto simp: MakeChild_def CreateChild_def Let_def)
  have "directory < length h"
    using assms(1) by (rule deref_less)
  then show ?thesis
    using assms(1) by (simp add: h1 c deref_update_dir deref_append1)
next
  case (Some c')
  with assms(2) have "h1 = h" "c' = c"
    by (auto simp: MakeChild_def)
  with Some assms(1) show ?thesis
    by (auto simp: FindChild_def find_Some_iff split: option.splits)
qed

lemma songs_update_device:
  "deref (update_dir h r (\<lambda>n. n\<lparr>device := v\<rparr>)) r' = Some n' \<Longrightarrow>
   \<exists>n. deref h r' = Some n \<and> songs n' = songs n"
  by (auto simp: deref_update_dir split: if_splits)

subsection \<open>What a graft leaves in place\<close>

lemma dir_le_refl [simp]: "dir_le n n"
  by (simp add: dir_le_def)

lemma dir_le_trans: "dir_le a b \<Longrightarrow> dir_le b c \<Longrightarrow> dir_le a c"
  by (auto simp: dir_le_def intro: prefix_order.trans)

lemma db_le_refl [simp]: "db_le h h"
  by (simp add: db_le_def)

lemma db_le_trans: "db_le a b \<Longrightarrow> db_le b c \<Longrightarrow> db_le a c"
  unfolding db_le_def
  by (metis (no_types, lifting) dir_le_trans dual_order.trans order_less_le_trans)

lemma db_le_liveD: "db_le h h' \<Longrightarrow> deref h r = Some n \<Longrightarrow> \<exists>n'. deref h' r = Some n' \<and> dir_le n n'"
  by (simp add: db_le_def)

lemma db_le_keeps:
  assumes "db_le h h'" and "deref h r = Some m"
  shows "\<exists>m'. deref h' r = Some m' \<and> dir_name m' = dir_name m \<and> mtime m' = mtime m \<and>
           prefix (songs m) (songs m') \<and> prefix (children m) (children m')"
  using db_le_liveD [OF assms] by (auto simp: dir_le_def)

lemma db_le_update_dir:
  "(\<And>n. deref h r = Some n \<Longrightarrow> dir_le n (f n)) \<Longrightarrow> db_le h (update_dir h r f)"
  by (auto simp: db_le_def deref_update_dir)

lemma db_le_append1: "db_le h (h @ [x])"
  by (auto simp: db_le_def deref_append1) (auto simp: deref_def)

lemma db_le_CreateChild: "db_le h (fst (CreateChild h directory nm))"
proof -
  have "db_le (h @ [x]) (update_dir (h @ [x]) directory (\<lambda>n. n\<lparr>children := children n @ [c]\<rparr>))" for x c
    by (rule db_le_update_dir) (simp add: dir_le_def)
  then show ?thesis
    by (auto simp: CreateChild_def Let_def intro: db_le_trans [OF db_le_append1])
qed

lemma db_le_MakeChild: "db_le h (fst (MakeChild h directory nm))"
  by (simp add: MakeChild_def db_le_CreateChild split: option.splits)

lemma db_le_set_device: "db_le h (update_dir h r (\<lambda>n. n\<lparr>device := DEVICE_INARCHIVE\<rparr>))"
  by (rule db_le_update_dir) (simp add: dir_le_def)

lemma db_le_AddSong: "db_le h (AddSong h directory song)"
  unfolding AddSong_def by (rule db_le_update_dir) (simp add: dir_le_def)

lemma db_le_UpdateArchiveTree:
  "db_le (db w) (db (state_of (UpdateArchiveTree env w directory name)))"
proof (induction name arbitrary: w directory rule: path_induct)
  case (leaf name)
  then show ?case
    by (simp add: UpdateArchiveTree_leaf db_le_AddSong split: option.splits sum.splits)
next
  case (slash pre rest)
  obtain h1 subdir where mk: "MakeChild (db w) directory pre = (h1, subdir)"
    by (cases "MakeChild (db w) directory pre")
  define h2 where "h2 = update_dir h1 subdir (\<lambda>n. n\<lparr>device := DEVICE_INARCHIVE\<rparr>)"
  have "db_le (db w) h1"
    using db_le_MakeChild [of "db w" directory pre] mk by simp
  moreover have "db_le h1 h2"
    unfolding h2_def by (rule db_le_set_device)
  moreover have "db_le h2 (db (state_of (UpdateArchiveTree env (w\<lparr>db := h2\<rparr>) subdir rest)))"
    using slash.IH [of "w\<lparr>db := h2\<rparr>" subdir] by simp
  ultimately show ?case
    using slash.hyps mk by (simp add: UpdateArchiveTree_slash h2_def [symmetric] db_le_trans)
qed

lemma db_le_Visit:
  "db_le (db w) (db (state_of (Visit env w directory entries)))"
proof (induction entries arbitrary: w)
  case Nil
  then show ?case by simp
next
  case (Cons e es)
  let ?w0 = "w\<lparr>events := events w @ [FormatDebug (''adding archive file: '' @ e)]\<rparr>"
  have first: "db_le (db w) (db (state_of (UpdateArchiveTree env ?w0 directory e)))"
    using db_le_UpdateArchiveTree [of ?w0 env directory e] by simp
  show ?case
  proof (cases "UpdateArchiveTree env ?w0 directory e")
    case (Return w1)
    with first Cons.IH [of w1] show ?thesis
      by (auto simp: VisitArchiveEntry_def intro: db_le_trans)
  next
    case (Throw m w1)
    with first show ?thesis
      by (simp add: VisitArchiveEntry_def)
  qed
qed

lemma refs_ok_iff:
  "refs_ok h \<longleftrightarrow> (\<forall>r n. deref h r = Some n \<longrightarrow> (\<forall>c\<in>set (children n). c < length h))"
proof
  assume ok: "refs_ok h"
  show "\<forall>r n. deref h r = Some n \<longrightarrow> (\<forall>c\<in>set (children n). c < length h)"
  proof (intro allI impI)
    fix r n
    assume "deref h r = Some n"
    then have "Some n \<in> set h"
      by (rule deref_in_set)
    with ok show "\<forall>c\<in>set (children n). c < length h"
      by (auto simp: refs_ok_def list_all_iff)
  qed
next
  assume r: "\<forall>r n. deref h r = Some n \<longrightarrow> (\<forall>c\<in>set (children n). c < length h)"
  have "list_all (\<lambda>c. c < length h) (children n)" if "Some n \<in> set h" for n
  proof -
    from that obtain i where "i < length h" "h ! i = Some n"
      by (auto simp: in_set_conv_nth)
    then have "deref h i = Some n"
      by (simp add: deref_def)
    with r show ?thesis
      by (auto simp: list_all_iff)
  qed
  then show "refs_ok h"
    by (auto simp: refs_ok_def list_all_iff split: option.splits)
qed


lemma refs_ok_update_dir:
  assumes "refs_ok h"
    and "\<And>n. deref h r = Some n \<Longrightarrow> children (f n) = children n"
  shows "refs_ok (update_dir h r f)"
  using assms unfolding refs_ok_iff
  by (auto simp: deref_update_dir split: if_splits)

lemma refs_ok_CreateChild: "refs_ok h \<Longrightarrow> refs_ok (fst (CreateChild h directory nm))"
  unfolding refs_ok_iff
  by (auto simp: CreateChild_def Let_def deref_update_dir deref_append1 split: if_splits)
     (fastforce simp: less_Suc_eq)+

lemma refs_ok_MakeChild: "refs_ok h \<Longrightarrow> refs_ok (fst (MakeChild h directory nm))"
  by (simp add: MakeChild_def refs_ok_CreateChild split: option.splits)







lemma FindChild_db_le:
  assumes "refs_ok h" and "db_le h h'" and "FindChild h directory nm = Some c"
  shows "FindChild h' directory nm = Some c"
proof -
  from assms(3) obtain n where n: "deref h directory = Some n"
    and f: "find (\<lambda>c. case deref h c of None \<Rightarrow> False | Some cn \<Rightarrow> dir_name cn = nm) (children n) = Some c"
    by (auto simp: FindChild_def split: option.splits)
  from db_le_liveD [OF assms(2) n] obtain n' where n': "deref h' directory = Some n'"
    and "dir_le n n'"
    by blast
  then obtain extra where ch: "children n' = children n @ extra"
    by (auto simp: dir_le_def prefix_def)
  have same: "(case deref h' x of None \<Rightarrow> False | Some cn \<Rightarrow> dir_name cn = nm) =
              (case deref h x of None \<Rightarrow> False | Some cn \<Rightarrow> dir_name cn = nm)"
    if "x \<in> set (children n)" for x
  proof (cases "deref h x")
    case None
    have "x < length h"
      using assms(1) n that by (auto simp: refs_ok_iff)
    with None assms(2) have "deref h' x = None"
      by (simp add: db_le_def)
    with None show ?thesis by simp
  next
    case (Some xn)
    from db_le_liveD [OF assms(2) Some] obtain xn' where "deref h' x = Some xn'" "dir_le xn xn'"
      by blast
    with Some show ?thesis
      by (simp add: dir_le_def)
  qed
  then have "find (\<lambda>c. case deref h' c of None \<Rightarrow> False | Some cn \<Rightarrow> dir_name cn = nm) (children n) =
        find (\<lambda>c. case deref h c of None \<Rightarrow> False | Some cn \<Rightarrow> dir_name cn = nm) (children n)"
    by (intro find_cong) auto
  with f show ?thesis
    by (simp add: FindChild_def n' ch find_Some_append)
qed

lemma FindChild_MakeChild:
  assumes "refs_ok h" and "deref h directory = Some n" and "MakeChild h directory nm = (h1, c)"
  shows "FindChild h1 directory nm = Some c"
proof (cases "FindChild h directory nm")
  case (Some c')
  with assms(3) show ?thesis
    by (auto simp: MakeChild_def)
next
  case None
  let ?new = "\<lparr>dir_name = nm, mtime = 0, device = DEVICE_ID 0, children = [],
               songs = [], dir_parent = Some directory\<rparr>"
  from None assms(3) have h1: "h1 = update_dir (h @ [Some ?new]) directory
          (\<lambda>n. n\<lparr>children := children n @ [length h]\<rparr>)"
    and c: "c = length h"
    by (auto simp: MakeChild_def CreateChild_def Let_def)
  have d: "directory < length h"
    using assms(2) by (rule deref_less)
  have n1: "deref h1 directory = Some (n\<lparr>children := children n @ [length h]\<rparr>)"
    using d assms(2) by (simp add: h1 deref_update_dir deref_append1)
  have none: "find (\<lambda>c. case deref h c of None \<Rightarrow> False | Some cn \<Rightarrow> dir_name cn = nm) (children n) = None"
    using None assms(2) by (simp add: FindChild_def)
  have same: "(case deref h1 x of None \<Rightarrow> False | Some cn \<Rightarrow> dir_name cn = nm) =
              (case deref h x of None \<Rightarrow> False | Some cn \<Rightarrow> dir_name cn = nm)"
    if "x \<in> set (children n)" for x
  proof -
    have "x < length h"
      using assms(1,2) that by (auto simp: refs_ok_iff)
    then show ?thesis
      using assms(2) by (auto simp: h1 deref_update_dir deref_append1 split: option.splits)
  qed
  then have "find (\<lambda>c. case deref h1 c of None \<Rightarrow> False | Some cn \<Rightarrow> dir_name cn = nm) (children n) =
        find (\<lambda>c. case deref h c of None \<Rightarrow> False | Some cn \<Rightarrow> dir_name cn = nm) (children n)"
    by (intro find_cong) auto
  with none have "find (\<lambda>c. case deref h1 c of None \<Rightarrow> False | Some cn \<Rightarrow> dir_name cn = nm)
      (children n @ [length h]) =
      find (\<lambda>c. case deref h1 c of None \<Rightarrow> False | Some cn \<Rightarrow> dir_name cn = nm) [length h]"
    by (simp add: find_None_append)
  moreover have "deref h1 (length h) = Some ?new"
    using d by (simp add: h1 deref_update_dir deref_append1)
  ultimately show ?thesis
    by (simp add: FindChild_def n1 c)
qed

subsection \<open>Evaluating the examples\<close>

lemmas example_defs = example_env_def example_root_def example_walk_def

lemmas example_more_defs = example_env_unparsable_def example_env_picky_def example_env_raises_def
  example_env_broken_def
  example_env_remote_def example_synced_def

lemmas db_defs = deref_def update_dir_def FindChild_def CreateChild_def MakeChild_def FindSong_def AddSong_def
  Song_LoadFile_def StringIsEmpty_def

subsection \<open>Grafting one entry path\<close>



text \<open>
  C1. Grafting an entry path \<open>x/\<close> (one segment \<open>x\<close> without a slash, then a trailing
  slash) into a live directory does not leave the tree as it was in general. What holds:
  \<^verbatim>\<open>UpdateArchiveTree\<close> returns, logs the warning, leaves the modified flag alone and adds
  no leaf (every directory keeps its songs, and a new directory has none); the child
  directory \<open>x\<close> is found or made and marked \<^verbatim>\<open>DEVICE_INARCHIVE\<close> before the empty
  final component is seen. One directory node is created when no child named \<open>x\<close>
  existed, none otherwise, and the database is the one before the call exactly when a
  child named \<open>x\<close> existed and already carried the mark.
\<close>

theorem graft_directory_only:
  assumes "CHR ''/'' \<notin> set x" and "deref (db w) directory = Some n"
  shows "\<exists>w'. UpdateArchiveTree env w directory (x @ ''/'') = Return w' \<and>
           events w' = events w @ [LogWarning ''archive returned directory only''] \<and>
           modified w' = modified w \<and>
           (\<forall>r m. deref (db w) r = Some m \<longrightarrow> (\<exists>m'. deref (db w') r = Some m' \<and> songs m' = songs m)) \<and>
           length (db w') = (if FindChild (db w) directory x = None then Suc (length (db w)) else length (db w)) \<and>
           (\<forall>r. length (db w) \<le> r \<longrightarrow> (\<forall>m'. deref (db w') r = Some m' \<longrightarrow> songs m' = [])) \<and>
           (\<exists>c cn pn. deref (db w') directory = Some pn \<and> c \<in> set (children pn) \<and>
               deref (db w') c = Some cn \<and> dir_name cn = x \<and> device cn = DEVICE_INARCHIVE) \<and>
           (db w' = db w \<longleftrightarrow>
              (\<exists>c cn. FindChild (db w) directory x = Some c \<and> deref (db w) c = Some cn \<and>
                 device cn = DEVICE_INARCHIVE))"
proof -
  obtain h1 subdir where mk: "MakeChild (db w) directory x = (h1, subdir)"
    by (cases "MakeChild (db w) directory x")
  define h2 where "h2 = update_dir h1 subdir (\<lambda>n. n\<lparr>device := DEVICE_INARCHIVE\<rparr>)"
  define w' where "w' = w\<lparr>db := h2, events := events w @ [LogWarning ''archive returned directory only'']\<rparr>"
  have run: "UpdateArchiveTree env w directory (x @ ''/'') = Return w'"
    using assms(1) mk
    by (simp add: UpdateArchiveTree_slash UpdateArchiveTree_leaf h2_def w'_def)
  have dir_live: "directory < length (db w)"
    using assms(2) by (rule deref_less)
  from MakeChild_child [OF assms(2) mk] obtain pn cn
    where pn: "deref h1 directory = Some pn" and c: "subdir \<in> set (children pn)"
      and cn: "deref h1 subdir = Some cn" and nm: "dir_name cn = x"
    by blast
  have cn2: "deref h2 subdir = Some (cn\<lparr>device := DEVICE_INARCHIVE\<rparr>)"
    by (simp add: h2_def deref_update_dir cn)
  obtain pn2 where pn2: "deref h2 directory = Some pn2" and ch2: "children pn2 = children pn"
    using pn by (cases "directory = subdir") (auto simp: h2_def deref_update_dir)
  have child: "\<exists>c cn pn. deref h2 directory = Some pn \<and> c \<in> set (children pn) \<and>
               deref h2 c = Some cn \<and> dir_name cn = x \<and> device cn = DEVICE_INARCHIVE"
    using pn2 ch2 c cn2 nm by auto
  show ?thesis
  proof (cases "FindChild (db w) directory x")
    case None
    with mk have h1: "h1 = update_dir (db w @ [Some \<lparr>dir_name = x, mtime = 0, device = DEVICE_ID 0,
          children = [], songs = [], dir_parent = Some directory\<rparr>]) directory
          (\<lambda>n. n\<lparr>children := children n @ [length (db w)]\<rparr>)"
      and sub: "subdir = length (db w)"
      by (auto simp: MakeChild_def CreateChild_def Let_def)
    have len: "length h2 = Suc (length (db w))"
      by (simp add: h2_def h1)
    have old: "\<exists>m'. deref h2 r = Some m' \<and> songs m' = songs m" if "deref (db w) r = Some m" for r m
      using that deref_less [OF that]
      by (auto simp: h2_def h1 sub deref_update_dir deref_append1)
    have new: "songs m' = []" if "length (db w) \<le> r" "deref h2 r = Some m'" for r m'
      using that dir_live
      by (auto simp: h2_def h1 sub deref_update_dir deref_append1 split: if_splits)
    have "h2 \<noteq> db w"
      using len by auto
    with run None len old new child show ?thesis
      by (auto simp: w'_def)
  next
    case (Some c')
    with mk have h1: "h1 = db w" and sub: "subdir = c'"
      by (auto simp: MakeChild_def)
    from cn have cn_w: "deref (db w) c' = Some cn"
      by (simp add: h1 sub)
    have len: "length h2 = length (db w)"
      by (simp add: h2_def h1)
    have old: "\<exists>m'. deref h2 r = Some m' \<and> songs m' = songs m" if "deref (db w) r = Some m" for r m
      using that by (auto simp: h2_def h1 deref_update_dir)
    have new: "songs m' = []" if "length (db w) \<le> r" "deref h2 r = Some m'" for r m'
      using that deref_less [OF that(2)] len by simp
    have same: "h2 = db w \<longleftrightarrow> device cn = DEVICE_INARCHIVE"
    proof
      assume "h2 = db w"
      with cn2 cn_w sub have "cn\<lparr>device := DEVICE_INARCHIVE\<rparr> = cn"
        by simp
      then show "device cn = DEVICE_INARCHIVE"
        by (metis Directory.select_convs(3) Directory.surjective Directory.update_convs(3))
    next
      assume "device cn = DEVICE_INARCHIVE"
      then have "cn\<lparr>device := DEVICE_INARCHIVE\<rparr> = cn"
        by simp
      with cn_w show "h2 = db w"
        by (simp add: h2_def h1 sub update_dir_same)
    qed
    from run Some len old new child same cn_w show ?thesis
      by (auto simp: w'_def)
  qed
qed

text \<open>
  Grafting \<open>x/\<close> into a root without children changes the database: the directory
  \<open>x\<close> is created.
\<close>

theorem graft_directory_only_counterexample:
  "db (state_of (UpdateArchiveTree example_env example_walk 0 ''x/'')) \<noteq> db example_walk"
  by (simp add: UpdateArchiveTree.simps example_defs db_defs lock_defs Let_def)

theorem graft_directory_only_witness:
  "CHR ''/'' \<notin> set ''x'' \<and> deref (db example_walk) 0 = Some example_root \<and>
   (\<exists>w'. UpdateArchiveTree example_env example_walk 0 (''x'' @ ''/'') = Return w' \<and>
         events w' = [LogWarning ''archive returned directory only''] \<and>
         length (db w') = 2 \<and> db w' \<noteq> db example_walk)"
proof -
  have a: "CHR ''/'' \<notin> set ''x''"
    by simp
  have b: "deref (db example_walk) 0 = Some example_root"
    by (simp add: example_defs deref_def)
  have c: "FindChild (db example_walk) 0 ''x'' = None"
    by (simp add: example_defs db_defs)
  from graft_directory_only [OF a b, of example_env] c
  obtain w' where "UpdateArchiveTree example_env example_walk 0 (''x'' @ ''/'') = Return w'"
    and "events w' = events example_walk @ [LogWarning ''archive returned directory only'']"
    and "length (db w') = Suc (length (db example_walk))"
    and "db w' \<noteq> db example_walk"
    by auto
  then show ?thesis
    using a b by (auto simp: example_walk_def)
qed















subsection \<open>Syncing an archive: the paths that return early\<close>

text \<open>
  C3. When \<^verbatim>\<open>UpdateArchiveFile\<close> finds a child directory named \<open>name\<close> under \<open>parent\<close>
  whose stored modification time equals the one of the file on disk, and
  \<^verbatim>\<open>walk_discard\<close> is off, it returns at once with the walk as it was: the database is
  untouched and no event is recorded, so \<^verbatim>\<open>archive_file_open\<close> has not been called.
\<close>

theorem sync_unchanged_archive:
  assumes "FindChild (db w) parent name = Some d"
    and "deref (db w) d = Some n"
    and "mtime n = info_mtime info"
    and "\<not> walk_discard w"
  shows "UpdateArchiveFile env w parent name info plugin = Return w"
  using assms by (simp add: UpdateArchiveFile_def lock_defs)

theorem sync_unchanged_archive_witness:
  "FindChild (db example_synced) 0 ''m.zip'' = Some 1 \<and> \<not> walk_discard example_synced \<and>
   UpdateArchiveFile example_env example_synced 0 ''m.zip'' \<lparr>info_mtime = 5\<rparr> ''zip'' = Return example_synced"
proof -
  have a: "FindChild (db example_synced) 0 ''m.zip'' = Some 1"
    by (simp add: example_synced_def db_defs)
  have b: "deref (db example_synced) 1 = Some \<lparr>dir_name = ''m.zip'', mtime = 5, device = DEVICE_INARCHIVE, children = [2],
                   songs = [\<lparr>uri = ''d.mod'', tag = ''tag''\<rparr>], dir_parent = Some 0\<rparr>"
    by (simp add: example_synced_def db_defs)
  have d: "\<not> walk_discard example_synced"
    by (simp add: example_synced_def)
  from sync_unchanged_archive [OF a b _ d, of "\<lparr>info_mtime = 5\<rparr>" example_env "''zip''"] a d
  show ?thesis by simp
qed

text \<open>
  C7. When the storage cannot map the archive to a local path (\<^verbatim>\<open>MapChildFS\<close> gives a
  null path), \<^verbatim>\<open>UpdateArchiveFile\<close> returns normally with the walk as it was: no
  \<^verbatim>\<open>archive_file_open\<close> call, no change of the database, no error logged.
\<close>

theorem sync_not_local:
  assumes "MapChildFS env (GetPath env (db w) parent) name = None"
  shows "UpdateArchiveFile env w parent name info plugin = Return w"
  using assms by (simp add: UpdateArchiveFile_def Let_def)

theorem sync_not_local_witness:
  "MapChildFS example_env_remote (GetPath example_env_remote (db example_synced) 0) ''m.zip'' = None \<and>
   UpdateArchiveFile example_env_remote example_synced 0 ''m.zip'' \<lparr>info_mtime = 6\<rparr> ''zip'' = Return example_synced"
proof -
  have a: "MapChildFS example_env_remote (GetPath example_env_remote (db example_synced) 0) ''m.zip'' = None"
    by (simp add: example_env_remote_def)
  from sync_not_local [OF a] a show ?thesis by simp
qed

subsection \<open>Syncing an archive that opens\<close>

lemma UpdateArchiveFile_open_db:
  assumes "\<not> ((case FindChild (db w) parent name of
                 None \<Rightarrow> False
               | Some d \<Rightarrow> (case deref (db w) d of None \<Rightarrow> False | Some n \<Rightarrow> mtime n = info_mtime info))
              \<and> \<not> walk_discard w)"
    and "MapChildFS env (GetPath env (db w) parent) name = Some path_fs"
    and "archive_file_open env plugin path_fs = Inr file"
  shows "\<exists>w4 d. db (state_of (UpdateArchiveFile env w parent name info plugin)) =
                   db (state_of (Visit env w4 d file)) \<and>
               (case FindChild (db w) parent name of
                  Some c \<Rightarrow> d = c \<and> db w4 = update_dir (db w) c (\<lambda>n. n\<lparr>mtime := info_mtime info\<rparr>)
                | None \<Rightarrow> d = length (db w) \<and>
                    db w4 = update_dir (update_dir (fst (CreateChild (db w) parent name)) (length (db w))
                              (\<lambda>n. n\<lparr>device := DEVICE_INARCHIVE\<rparr>)) (length (db w))
                              (\<lambda>n. n\<lparr>mtime := info_mtime info\<rparr>))"
proof (cases "FindChild (db w) parent name")
  case None
  define w4 where "w4 = w\<lparr>events := events w @ [ArchiveFile_Open path_fs,
        FormatDebug (''archive '' @ path_fs @ '' opened''),
        FormatDebug (''creating archive directory: '' @ name)],
      db := update_dir (update_dir (fst (CreateChild (db w) parent name)) (length (db w))
                              (\<lambda>n. n\<lparr>device := DEVICE_INARCHIVE\<rparr>)) (length (db w))
                              (\<lambda>n. n\<lparr>mtime := info_mtime info\<rparr>)\<rparr>"
  have "db (state_of (UpdateArchiveFile env w parent name info plugin)) =
        db (state_of (Visit env w4 (length (db w)) file))"
    using None assms(2,3)
    by (cases "Visit env w4 (length (db w)) file")
       (simp_all add: UpdateArchiveFile_def lock_defs Let_def CreateChild_def w4_def)
  with None show ?thesis
    by (auto simp: w4_def)
next
  case (Some c)
  define w4 where "w4 = w\<lparr>events := events w @ [ArchiveFile_Open path_fs,
        FormatDebug (''archive '' @ path_fs @ '' opened'')],
      db := update_dir (db w) c (\<lambda>n. n\<lparr>mtime := info_mtime info\<rparr>)\<rparr>"
  have noskip: "((case deref (db w) c of None \<Rightarrow> False | Some n \<Rightarrow> mtime n = info_mtime info)
              \<and> \<not> walk_discard w) = False"
    using assms(1) Some by simp
  have "db (state_of (UpdateArchiveFile env w parent name info plugin)) =
        db (state_of (Visit env w4 c file))"
    using Some assms(2,3)
    by (cases "Visit env w4 c file")
       (simp_all add: UpdateArchiveFile_def lock_defs Let_def w4_def noskip)
  with Some show ?thesis
    by (auto simp: w4_def)
qed

lemma sync_reuse:
  assumes "deref (db w) parent = Some pn"
    and "refs_ok (db w)"
    and "MapChildFS env (GetPath env (db w) parent) name = Some path_fs"
    and "archive_file_open env plugin path_fs = Inr file"
    and f: "FindChild (db w) parent name = Some d" and dn: "deref (db w) d = Some dn"
    and ne: "mtime dn \<noteq> info_mtime info"
    and w': "w' = state_of (UpdateArchiveFile env w parent name info plugin)"
  shows "FindChild (db w') parent name = Some d \<and>
            (\<exists>dn'. deref (db w') d = Some dn' \<and> mtime dn' = info_mtime info \<and>
                   dir_name dn' = dir_name dn \<and> device dn' \<in> {device dn, DEVICE_INARCHIVE} \<and>
                   prefix (songs dn) (songs dn') \<and> prefix (children dn) (children dn')) \<and>
            (\<forall>r m. deref (db w) r = Some m \<longrightarrow>
               (\<exists>m'. deref (db w') r = Some m' \<and> dir_name m' = dir_name m \<and>
                     prefix (songs m) (songs m') \<and> prefix (children m) (children m')))"
  proof -
  define h4 where "h4 = update_dir (db w) d (\<lambda>n. n\<lparr>mtime := info_mtime info\<rparr>)"
  have noskip: "\<not> ((case FindChild (db w) parent name of
               None \<Rightarrow> False
             | Some d \<Rightarrow> (case deref (db w) d of None \<Rightarrow> False | Some n \<Rightarrow> mtime n = info_mtime info))
            \<and> \<not> walk_discard w)"
    using f dn ne by simp
  from UpdateArchiveFile_open_db [OF noskip assms(3,4)] f
  obtain w4 where res: "db w' = db (state_of (Visit env w4 d file))" and w4: "db w4 = h4"
    by (auto simp: w' h4_def)
  have le: "db_le h4 (db w')"
    using db_le_Visit [of w4 env d "file"] by (simp add: res w4)
  have r4: "refs_ok h4"
    unfolding h4_def using assms(2) by (rule refs_ok_update_dir) simp
  have f4: "FindChild h4 parent name = Some d"
    unfolding h4_def using f by (simp add: FindChild_update_dir_keep)
  have find: "FindChild (db w') parent name = Some d"
    using FindChild_db_le [OF r4 le f4] .
  have d4: "deref h4 d = Some (dn\<lparr>mtime := info_mtime info\<rparr>)"
    by (simp add: h4_def deref_update_dir dn)
  from db_le_liveD [OF le d4] obtain dn' where "deref (db w') d = Some dn'"
    and "dir_le (dn\<lparr>mtime := info_mtime info\<rparr>) dn'"
    by blast
  then have node: "\<exists>dn'. deref (db w') d = Some dn' \<and> mtime dn' = info_mtime info \<and>
                 dir_name dn' = dir_name dn \<and> device dn' \<in> {device dn, DEVICE_INARCHIVE} \<and>
                 prefix (songs dn) (songs dn') \<and> prefix (children dn) (children dn')"
    by (auto simp: dir_le_def)
  have all: "\<exists>m'. deref (db w') r = Some m' \<and> dir_name m' = dir_name m \<and>
                   prefix (songs m) (songs m') \<and> prefix (children m) (children m')"
    if m: "deref (db w) r = Some m" for r m
  proof -
    have "\<exists>m4. deref h4 r = Some m4 \<and> dir_name m4 = dir_name m \<and> songs m4 = songs m \<and>
                children m4 = children m"
      using m by (auto simp: h4_def deref_update_dir)
    then obtain m4 where m4: "deref h4 r = Some m4" "dir_name m4 = dir_name m"
      "songs m4 = songs m" "children m4 = children m"
      by blast
    from db_le_keeps [OF le m4(1)] m4(2-4) show ?thesis
      by auto
  qed
  from find node all show ?thesis
    by blast
qed

lemma sync_create:
  assumes "deref (db w) parent = Some pn"
    and "refs_ok (db w)"
    and "MapChildFS env (GetPath env (db w) parent) name = Some path_fs"
    and "archive_file_open env plugin path_fs = Inr file"
    and f: "FindChild (db w) parent name = None"
    and w': "w' = state_of (UpdateArchiveFile env w parent name info plugin)"
  shows "FindChild (db w') parent name = Some (length (db w)) \<and>
            (\<exists>cn. deref (db w') (length (db w)) = Some cn \<and> mtime cn = info_mtime info \<and>
                  device cn = DEVICE_INARCHIVE \<and> dir_name cn = name)"
  proof -
  define c where "c = length (db w)"
  define h1 where "h1 = fst (CreateChild (db w) parent name)"
  define h3 where "h3 = update_dir h1 c (\<lambda>n. n\<lparr>device := DEVICE_INARCHIVE\<rparr>)"
  define h4 where "h4 = update_dir h3 c (\<lambda>n. n\<lparr>mtime := info_mtime info\<rparr>)"
  have noskip: "\<not> ((case FindChild (db w) parent name of
               None \<Rightarrow> False
             | Some d \<Rightarrow> (case deref (db w) d of None \<Rightarrow> False | Some n \<Rightarrow> mtime n = info_mtime info))
            \<and> \<not> walk_discard w)"
    using f by simp
  from UpdateArchiveFile_open_db [OF noskip assms(3,4)] f
  obtain w4 where res: "db w' = db (state_of (Visit env w4 c file))" and w4: "db w4 = h4"
    by (auto simp: w' h4_def h3_def h1_def c_def)
  have le: "db_le h4 (db w')"
    using db_le_Visit [of w4 env c "file"] by (simp add: res w4)
  have mk: "MakeChild (db w) parent name = (h1, c)"
    using f by (simp add: MakeChild_def h1_def c_def CreateChild_def Let_def)
  have r1: "refs_ok h1"
    using refs_ok_MakeChild [OF assms(2), of parent name] mk by simp
  have r3: "refs_ok h3"
    unfolding h3_def using r1 by (rule refs_ok_update_dir) simp
  have r4: "refs_ok h4"
    unfolding h4_def using r3 by (rule refs_ok_update_dir) simp
  have f1: "FindChild h1 parent name = Some c"
    using FindChild_MakeChild [OF assms(2,1) mk] .
  have f4: "FindChild h4 parent name = Some c"
    unfolding h4_def h3_def using f1 by (simp add: FindChild_update_dir_keep)
  have find: "FindChild (db w') parent name = Some c"
    using FindChild_db_le [OF r4 le f4] .
  from MakeChild_child [OF assms(1) mk] obtain cn where cn: "deref h1 c = Some cn"
    and nm: "dir_name cn = name"
    by blast
  have d4: "deref h4 c = Some (cn\<lparr>device := DEVICE_INARCHIVE, mtime := info_mtime info\<rparr>)"
    by (simp add: h4_def h3_def deref_update_dir cn)
  from db_le_liveD [OF le d4] obtain cn' where "deref (db w') c = Some cn'"
    and "dir_le (cn\<lparr>device := DEVICE_INARCHIVE, mtime := info_mtime info\<rparr>) cn'"
    by blast
  then have "\<exists>cn. deref (db w') c = Some cn \<and> mtime cn = info_mtime info \<and>
                device cn = DEVICE_INARCHIVE \<and> dir_name cn = name"
    using nm by (auto simp: dir_le_def)
  with find show ?thesis
    by (simp add: c_def)
qed

text \<open>
  C8. Let \<^verbatim>\<open>UpdateArchiveFile\<close> run on a live \<open>parent\<close> of a database whose child
  references are in range, with a local path for the archive and an archive that
  opens. If a child directory \<open>d\<close> named \<open>name\<close> exists and its stored modification
  time differs from the one on disk, then after the call the child of that name is
  still the object \<open>d\<close>, its modification time is the one on disk, and every directory
  that was there before (those below \<open>d\<close> included) is still there under its name, with
  the songs and children it had, in their places, before anything the visit added. If
  no such child exists, the new object is the child of that name, marked
  \<^verbatim>\<open>DEVICE_INARCHIVE\<close>, and its modification time is the one on disk as well.
\<close>

theorem sync_changed_archive:
  assumes "deref (db w) parent = Some pn"
    and "refs_ok (db w)"
    and "MapChildFS env (GetPath env (db w) parent) name = Some path_fs"
    and "archive_file_open env plugin path_fs = Inr file"
  shows "let w' = state_of (UpdateArchiveFile env w parent name info plugin) in
         (\<forall>d dn. FindChild (db w) parent name = Some d \<and> deref (db w) d = Some dn \<and>
                  mtime dn \<noteq> info_mtime info \<longrightarrow>
            FindChild (db w') parent name = Some d \<and>
            (\<exists>dn'. deref (db w') d = Some dn' \<and> mtime dn' = info_mtime info \<and>
                   dir_name dn' = dir_name dn \<and> device dn' \<in> {device dn, DEVICE_INARCHIVE} \<and>
                   prefix (songs dn) (songs dn') \<and> prefix (children dn) (children dn')) \<and>
            (\<forall>r m. deref (db w) r = Some m \<longrightarrow>
               (\<exists>m'. deref (db w') r = Some m' \<and> dir_name m' = dir_name m \<and>
                     prefix (songs m) (songs m') \<and> prefix (children m) (children m')))) \<and>
         (FindChild (db w) parent name = None \<longrightarrow>
            FindChild (db w') parent name = Some (length (db w)) \<and>
            (\<exists>cn. deref (db w') (length (db w)) = Some cn \<and> mtime cn = info_mtime info \<and>
                  device cn = DEVICE_INARCHIVE \<and> dir_name cn = name))"
proof -
  define w' where "w' = state_of (UpdateArchiveFile env w parent name info plugin)"
  have reuse: "FindChild (db w') parent name = Some d \<and>
            (\<exists>dn'. deref (db w') d = Some dn' \<and> mtime dn' = info_mtime info \<and>
                   dir_name dn' = dir_name dn \<and> device dn' \<in> {device dn, DEVICE_INARCHIVE} \<and>
                   prefix (songs dn) (songs dn') \<and> prefix (children dn) (children dn')) \<and>
            (\<forall>r m. deref (db w) r = Some m \<longrightarrow>
               (\<exists>m'. deref (db w') r = Some m' \<and> dir_name m' = dir_name m \<and>
                     prefix (songs m) (songs m') \<and> prefix (children m) (children m')))"
    if "FindChild (db w) parent name = Some d \<and> deref (db w) d = Some dn \<and>
        mtime dn \<noteq> info_mtime info" for d dn
    using that sync_reuse [OF assms _ _ _ w'_def, of d dn] by blast
  have create: "FindChild (db w') parent name = Some (length (db w)) \<and>
            (\<exists>cn. deref (db w') (length (db w)) = Some cn \<and> mtime cn = info_mtime info \<and>
                  device cn = DEVICE_INARCHIVE \<and> dir_name cn = name)"
    if "FindChild (db w) parent name = None"
    using that by (rule sync_create [OF assms _ w'_def])
  have r: "\<forall>d dn. FindChild (db w) parent name = Some d \<and> deref (db w) d = Some dn \<and>
                  mtime dn \<noteq> info_mtime info \<longrightarrow>
            FindChild (db w') parent name = Some d \<and>
            (\<exists>dn'. deref (db w') d = Some dn' \<and> mtime dn' = info_mtime info \<and>
                   dir_name dn' = dir_name dn \<and> device dn' \<in> {device dn, DEVICE_INARCHIVE} \<and>
                   prefix (songs dn) (songs dn') \<and> prefix (children dn) (children dn')) \<and>
            (\<forall>r m. deref (db w) r = Some m \<longrightarrow>
               (\<exists>m'. deref (db w') r = Some m' \<and> dir_name m' = dir_name m \<and>
                     prefix (songs m) (songs m') \<and> prefix (children m) (children m')))"
    by (intro allI impI) (rule reuse)
  have c: "FindChild (db w) parent name = None \<longrightarrow>
            FindChild (db w') parent name = Some (length (db w)) \<and>
            (\<exists>cn. deref (db w') (length (db w)) = Some cn \<and> mtime cn = info_mtime info \<and>
                  device cn = DEVICE_INARCHIVE \<and> dir_name cn = name)"
    by (intro impI) (rule create)
  show ?thesis
    unfolding Let_def using r [unfolded w'_def] c [unfolded w'_def] by (rule conjI)
qed

theorem sync_changed_archive_witness:
  "refs_ok (db example_synced) \<and>
   FindChild (db example_synced) 0 ''m.zip'' = Some 1 \<and>
   FindChild (db (state_of (UpdateArchiveFile example_env example_synced 0 ''m.zip'' \<lparr>info_mtime = 6\<rparr> ''zip'')))
     0 ''m.zip'' = Some 1 \<and>
   (\<exists>dn'. deref (db (state_of (UpdateArchiveFile example_env example_synced 0 ''m.zip'' \<lparr>info_mtime = 6\<rparr> ''zip''))) 1
            = Some dn' \<and>
          mtime dn' = 6 \<and> prefix [\<lparr>uri = ''d.mod'', tag = ''tag''\<rparr>] (songs dn'))"
proof -
  let ?dn = "\<lparr>dir_name = ''m.zip'', mtime = 5, device = DEVICE_INARCHIVE, children = [2],
                   songs = [\<lparr>uri = ''d.mod'', tag = ''tag''\<rparr>], dir_parent = Some 0\<rparr>"
  have a: "deref (db example_synced) 0 = Some \<lparr>dir_name = ''music'', mtime = 0, device = DEVICE_ID 1,
              children = [1], songs = [], dir_parent = None\<rparr>"
    by (simp add: example_synced_def deref_def)
  have b: "refs_ok (db example_synced)"
    by (simp add: example_synced_def refs_ok_def)
  have c: "MapChildFS example_env (GetPath example_env (db example_synced) 0) ''m.zip'' = Some ''music/m.zip''"
    by (simp add: example_env_def)
  have d: "archive_file_open example_env ''zip'' ''music/m.zip'' = Inr [''a/b.it'', ''a/c.it'', ''d.mod'']"
    by (simp add: example_env_def)
  have f: "FindChild (db example_synced) 0 ''m.zip'' = Some 1"
    by (simp add: example_synced_def db_defs)
  have g: "deref (db example_synced) 1 = Some ?dn"
    by (simp add: example_synced_def deref_def)
  have h: "mtime ?dn \<noteq> info_mtime \<lparr>info_mtime = 6\<rparr>"
    by simp
  note t = sync_changed_archive [OF a b c d, of "\<lparr>info_mtime = 6\<rparr>", unfolded Let_def]
  from t f g h have
    "FindChild (db (state_of (UpdateArchiveFile example_env example_synced 0 ''m.zip'' \<lparr>info_mtime = 6\<rparr> ''zip'')))
       0 ''m.zip'' = Some 1 \<and>
     (\<exists>dn'. deref (db (state_of (UpdateArchiveFile example_env example_synced 0 ''m.zip'' \<lparr>info_mtime = 6\<rparr> ''zip''))) 1
            = Some dn' \<and>
          mtime dn' = info_mtime \<lparr>info_mtime = 6\<rparr> \<and> dir_name dn' = dir_name ?dn \<and>
          device dn' \<in> {device ?dn, DEVICE_INARCHIVE} \<and>
          prefix (songs ?dn) (songs dn') \<and> prefix (children ?dn) (children dn'))"
    by blast
  then have
    "FindChild (db (state_of (UpdateArchiveFile example_env example_synced 0 ''m.zip'' \<lparr>info_mtime = 6\<rparr> ''zip'')))
       0 ''m.zip'' = Some 1 \<and>
     (\<exists>dn'. deref (db (state_of (UpdateArchiveFile example_env example_synced 0 ''m.zip'' \<lparr>info_mtime = 6\<rparr> ''zip''))) 1
            = Some dn' \<and>
          mtime dn' = 6 \<and> prefix [\<lparr>uri = ''d.mod'', tag = ''tag''\<rparr>] (songs dn'))"
    by auto
  with b f show ?thesis
    by blast
qed

lemma io_events_UpdateArchiveTree:
  "filter is_archive_io (events (state_of (UpdateArchiveTree env w directory name))) =
   filter is_archive_io (events w)"
proof (induction name arbitrary: w directory rule: path_induct)
  case (leaf name)
  then show ?case
    by (simp add: UpdateArchiveTree_leaf split: option.splits sum.splits)
next
  case (slash pre rest)
  obtain h1 subdir where mk: "MakeChild (db w) directory pre = (h1, subdir)"
    by (cases "MakeChild (db w) directory pre")
  from slash.IH [of "w\<lparr>db := update_dir h1 subdir (\<lambda>n. n\<lparr>device := DEVICE_INARCHIVE\<rparr>)\<rparr>" subdir]
  show ?case
    using slash.hyps mk by (simp add: UpdateArchiveTree_slash)
qed

lemma io_events_Visit:
  "filter is_archive_io (events (state_of (Visit env w directory entries))) =
   filter is_archive_io (events w)"
proof (induction entries arbitrary: w)
  case Nil
  then show ?case by simp
next
  case (Cons e es)
  let ?w0 = "w\<lparr>events := events w @ [FormatDebug (''adding archive file: '' @ e)]\<rparr>"
  have first: "filter is_archive_io (events (state_of (UpdateArchiveTree env ?w0 directory e))) =
               filter is_archive_io (events w)"
    using io_events_UpdateArchiveTree [of env ?w0 directory e] by simp
  show ?case
  proof (cases "UpdateArchiveTree env ?w0 directory e")
    case (Return w1)
    with first Cons.IH [of w1] show ?thesis
      by (simp add: VisitArchiveEntry_def)
  next
    case (Throw m w1)
    with first show ?thesis
      by (simp add: VisitArchiveEntry_def)
  qed
qed

lemma UpdateArchiveTree_returns:
  assumes "\<forall>h nm d e. load_song env h nm d \<noteq> Raises e"
  shows "\<exists>w'. UpdateArchiveTree env w directory name = Return w'"
proof (induction name arbitrary: w directory rule: path_induct)
  case (leaf name)
  then show ?case
    using assms
    by (auto simp: UpdateArchiveTree_leaf Song_LoadFile_def split: option.splits leaf_load.splits)
next
  case (slash pre rest)
  obtain h1 subdir where mk: "MakeChild (db w) directory pre = (h1, subdir)"
    by (cases "MakeChild (db w) directory pre")
  from slash.IH [of "w\<lparr>db := update_dir h1 subdir (\<lambda>n. n\<lparr>device := DEVICE_INARCHIVE\<rparr>)\<rparr>" subdir]
  show ?case
    using slash.hyps mk by (simp add: UpdateArchiveTree_slash)
qed

lemma Visit_returns:
  assumes "\<forall>h nm d e. load_song env h nm d \<noteq> Raises e"
  shows "\<exists>w'. Visit env w directory entries = Return w'"
proof (induction entries arbitrary: w)
  case Nil
  then show ?case by simp
next
  case (Cons e es)
  let ?w0 = "w\<lparr>events := events w @ [FormatDebug (''adding archive file: '' @ e)]\<rparr>"
  from UpdateArchiveTree_returns [OF assms, of ?w0 directory e]
  obtain w1 where "UpdateArchiveTree env ?w0 directory e = Return w1"
    by blast
  with Cons.IH [of w1] show ?case
    by (simp add: VisitArchiveEntry_def)
qed

lemma UpdateArchiveFile_open_exit:
  assumes "\<not> archive_up_to_date w parent name info"
    and "MapChildFS env (GetPath env (db w) parent) name = Some path_fs"
    and "archive_file_open env plugin path_fs = Inr entries"
  shows "\<exists>w4 d. UpdateArchiveFile env w parent name info plugin =
                   (case Visit env w4 d entries of
                      Throw e w5 \<Rightarrow> Throw e w5
                    | Return w5 \<Rightarrow> Return (w5\<lparr>events := events w5 @ [ArchiveFile_Close]\<rparr>)) \<and>
               filter is_archive_io (events w4) =
                 filter is_archive_io (events w) @ [ArchiveFile_Open path_fs]"
proof (cases "FindChild (db w) parent name")
  case None
  define w4 where "w4 = w\<lparr>events := events w @ [ArchiveFile_Open path_fs,
        FormatDebug (''archive '' @ path_fs @ '' opened''),
        FormatDebug (''creating archive directory: '' @ name)],
      db := update_dir (update_dir (fst (CreateChild (db w) parent name)) (length (db w))
                              (\<lambda>n. n\<lparr>device := DEVICE_INARCHIVE\<rparr>)) (length (db w))
                              (\<lambda>n. n\<lparr>mtime := info_mtime info\<rparr>)\<rparr>"
  have "UpdateArchiveFile env w parent name info plugin =
        (case Visit env w4 (length (db w)) entries of
           Throw e w5 \<Rightarrow> Throw e w5
         | Return w5 \<Rightarrow> Return (w5\<lparr>events := events w5 @ [ArchiveFile_Close]\<rparr>))"
    using None assms(2,3)
    by (simp add: UpdateArchiveFile_def lock_defs Let_def CreateChild_def w4_def)
  moreover have "filter is_archive_io (events w4) =
                 filter is_archive_io (events w) @ [ArchiveFile_Open path_fs]"
    by (simp add: w4_def)
  ultimately show ?thesis
    by blast
next
  case (Some c)
  define w4 where "w4 = w\<lparr>events := events w @ [ArchiveFile_Open path_fs,
        FormatDebug (''archive '' @ path_fs @ '' opened'')],
      db := update_dir (db w) c (\<lambda>n. n\<lparr>mtime := info_mtime info\<rparr>)\<rparr>"
  have noskip: "((case deref (db w) c of None \<Rightarrow> False | Some n \<Rightarrow> mtime n = info_mtime info)
              \<and> \<not> walk_discard w) = False"
    using assms(1) Some by (simp add: archive_up_to_date_def)
  have "UpdateArchiveFile env w parent name info plugin =
        (case Visit env w4 c entries of
           Throw e w5 \<Rightarrow> Throw e w5
         | Return w5 \<Rightarrow> Return (w5\<lparr>events := events w5 @ [ArchiveFile_Close]\<rparr>))"
    using Some assms(2,3)
    by (simp add: UpdateArchiveFile_def lock_defs Let_def w4_def noskip)
  moreover have "filter is_archive_io (events w4) =
                 filter is_archive_io (events w) @ [ArchiveFile_Open path_fs]"
    by (simp add: w4_def)
  ultimately show ?thesis
    by blast
qed

text \<open>
  C2. The archive is not released on every exit path: \<^verbatim>\<open>file->Close()\<close> is a plain call
  after \<^verbatim>\<open>file->Visit(visitor)\<close>, with no scope guard. What holds, for every call of
  \<^verbatim>\<open>UpdateArchiveFile\<close> that opens the archive: when the call returns, exactly one
  \<^verbatim>\<open>archive_file_open\<close> and then exactly one \<^verbatim>\<open>Close\<close> have been added to the archive
  calls, and \<^verbatim>\<open>Close\<close> is the last event; when an exception leaves the visit, the call
  is left with the archive opened and no \<^verbatim>\<open>Close\<close>; and the call returns whenever no
  leaf load raises, leaf loads that fail by giving no song included.
\<close>

theorem sync_closes_archive:
  assumes "\<not> archive_up_to_date w parent name info"
    and "MapChildFS env (GetPath env (db w) parent) name = Some path_fs"
    and "archive_file_open env plugin path_fs = Inr entries"
  shows "(case UpdateArchiveFile env w parent name info plugin of
            Return w' \<Rightarrow>
              filter is_archive_io (events w') =
                filter is_archive_io (events w) @ [ArchiveFile_Open path_fs, ArchiveFile_Close] \<and>
              last (events w') = ArchiveFile_Close
          | Throw e w' \<Rightarrow>
              filter is_archive_io (events w') =
                filter is_archive_io (events w) @ [ArchiveFile_Open path_fs]) \<and>
         ((\<forall>h nm d e. load_song env h nm d \<noteq> Raises e) \<longrightarrow>
            (\<exists>w'. UpdateArchiveFile env w parent name info plugin = Return w'))"
proof -
  from UpdateArchiveFile_open_exit [OF assms] obtain w4 d
    where run: "UpdateArchiveFile env w parent name info plugin =
                   (case Visit env w4 d entries of
                      Throw e w5 \<Rightarrow> Throw e w5
                    | Return w5 \<Rightarrow> Return (w5\<lparr>events := events w5 @ [ArchiveFile_Close]\<rparr>))"
      and ev: "filter is_archive_io (events w4) =
                 filter is_archive_io (events w) @ [ArchiveFile_Open path_fs]"
    by blast
  have vis: "filter is_archive_io (events (state_of (Visit env w4 d entries))) =
             filter is_archive_io (events w) @ [ArchiveFile_Open path_fs]"
    using io_events_Visit [of env w4 d entries] ev by simp
  have first: "case UpdateArchiveFile env w parent name info plugin of
            Return w' \<Rightarrow>
              filter is_archive_io (events w') =
                filter is_archive_io (events w) @ [ArchiveFile_Open path_fs, ArchiveFile_Close] \<and>
              last (events w') = ArchiveFile_Close
          | Throw e w' \<Rightarrow>
              filter is_archive_io (events w') =
                filter is_archive_io (events w) @ [ArchiveFile_Open path_fs]"
    using vis by (cases "Visit env w4 d entries") (simp_all add: run)
  have second: "\<exists>w'. UpdateArchiveFile env w parent name info plugin = Return w'"
    if "\<forall>h nm d e. load_song env h nm d \<noteq> Raises e"
    using Visit_returns [OF that, of w4 d entries] by (auto simp: run)
  from first second show ?thesis
    by blast
qed

text \<open>
  A member whose load raises: the archive has been opened, the exception leaves
  \<^verbatim>\<open>UpdateArchiveFile\<close>, and \<^verbatim>\<open>Close\<close> has not been called.
\<close>

theorem sync_closes_archive_counterexample:
  "ArchiveFile_Open ''music/m.zip'' \<in>
     set (events (state_of (UpdateArchiveFile example_env_raises example_walk 0 ''m.zip''
                              \<lparr>info_mtime = 5\<rparr> ''zip''))) \<and>
   ArchiveFile_Close \<notin>
     set (events (state_of (UpdateArchiveFile example_env_raises example_walk 0 ''m.zip''
                              \<lparr>info_mtime = 5\<rparr> ''zip''))) \<and>
   UpdateArchiveFile example_env_raises example_walk 0 ''m.zip'' \<lparr>info_mtime = 5\<rparr> ''zip'' \<noteq>
     Return (state_of (UpdateArchiveFile example_env_raises example_walk 0 ''m.zip''
                              \<lparr>info_mtime = 5\<rparr> ''zip''))"
  by (simp add: UpdateArchiveFile_def VisitArchiveEntry_def UpdateArchiveTree.simps
        example_defs example_more_defs db_defs lock_defs Let_def)

theorem sync_closes_archive_witness:
  "\<not> archive_up_to_date example_walk 0 ''m.zip'' \<lparr>info_mtime = 5\<rparr> \<and>
   MapChildFS example_env (GetPath example_env (db example_walk) 0) ''m.zip'' = Some ''music/m.zip'' \<and>
   (\<exists>w'. UpdateArchiveFile example_env example_walk 0 ''m.zip'' \<lparr>info_mtime = 5\<rparr> ''zip'' = Return w' \<and>
         filter is_archive_io (events w') = [ArchiveFile_Open ''music/m.zip'', ArchiveFile_Close] \<and>
         last (events w') = ArchiveFile_Close)"
proof -
  have a: "\<not> archive_up_to_date example_walk 0 ''m.zip'' \<lparr>info_mtime = 5\<rparr>"
    by (simp add: archive_up_to_date_def example_defs db_defs)
  have b: "MapChildFS example_env (GetPath example_env (db example_walk) 0) ''m.zip'' = Some ''music/m.zip''"
    by (simp add: example_env_def)
  have c: "archive_file_open example_env ''zip'' ''music/m.zip'' = Inr [''a/b.it'', ''a/c.it'', ''d.mod'']"
    by (simp add: example_env_def)
  have d: "\<forall>h nm d e. load_song example_env h nm d \<noteq> Raises e"
    by (simp add: example_env_def)
  have e: "events example_walk = []"
    by (simp add: example_walk_def)
  note t = sync_closes_archive [OF a b c]
  from t d obtain w' where r: "UpdateArchiveFile example_env example_walk 0 ''m.zip'' \<lparr>info_mtime = 5\<rparr> ''zip'' = Return w'"
    by blast
  from t have "filter is_archive_io (events w') = [ArchiveFile_Open ''music/m.zip'', ArchiveFile_Close] \<and>
         last (events w') = ArchiveFile_Close"
    by (simp add: r e)
  with a b r show ?thesis
    by blast
qed

subsection \<open>Syncing an archive that fails to open\<close>

lemma length_free_dirs [simp]: "length (free_dirs h ws) = length h"
  by (induction h ws rule: free_dirs.induct) (auto split: option.splits)

lemma free_dirs_survivor:
  "deref (free_dirs h ws) r = Some n \<Longrightarrow> deref h r = Some n"
  by (induction h ws rule: free_dirs.induct)
     (auto simp: deref_list_update_None split: option.splits if_splits)

lemma free_dirs_worklist:
  "r \<in> set ws \<Longrightarrow> deref (free_dirs h ws) r = None"
proof (induction h ws rule: free_dirs.induct)
  case (1 h)
  then show ?case by simp
next
  case (2 h x xs)
  show ?case
  proof (cases "deref h x")
    case None
    show ?thesis
    proof (cases "r = x")
      case True
      have "deref (free_dirs h xs) x = None"
      proof (rule ccontr)
        assume "deref (free_dirs h xs) x \<noteq> None"
        then obtain n where "deref (free_dirs h xs) x = Some n" by auto
        from free_dirs_survivor [OF this] None show False by simp
      qed
      with None True show ?thesis by simp
    next
      case False
      with 2 None show ?thesis by simp
    qed
  next
    case (Some n)
    show ?thesis
    proof (cases "r = x")
      case True
      have "deref (free_dirs (h[x := None]) (children n @ xs)) x = None"
      proof (rule ccontr)
        assume "deref (free_dirs (h[x := None]) (children n @ xs)) x \<noteq> None"
        then obtain m where "deref (free_dirs (h[x := None]) (children n @ xs)) x = Some m" by auto
        from free_dirs_survivor [OF this] show False by (simp add: deref_list_update_None)
      qed
      with Some True show ?thesis by simp
    next
      case False
      with 2 Some show ?thesis by simp
    qed
  qed
qed

lemma free_dirs_closed:
  "deref h r = Some n \<Longrightarrow> deref (free_dirs h ws) r = None \<Longrightarrow> c \<in> set (children n) \<Longrightarrow>
   deref (free_dirs h ws) c = None"
proof (induction h ws arbitrary: r n c rule: free_dirs.induct)
  case (1 h)
  then show ?case by simp
next
  case (2 h x xs)
  show ?case
  proof (cases "deref h x")
    case None
    with 2 show ?thesis by simp
  next
    case (Some m)
    show ?thesis
    proof (cases "r = x")
      case True
      with Some "2.prems" have "c \<in> set (children m @ xs)"
        by simp
      then have "deref (free_dirs (h[x := None]) (children m @ xs)) c = None"
        by (rule free_dirs_worklist)
      with Some show ?thesis by simp
    next
      case False
      with "2.prems" have "deref (h[x := None]) r = Some n"
        by (simp add: deref_list_update_None)
      from "2.IH"(2) [OF Some this _ "2.prems"(3)] "2.prems"(2) Some show ?thesis
        by simp
    qed
  qed
qed

lemma free_dirs_descendant:
  "descendant h d r \<Longrightarrow> deref (free_dirs h [d]) r = None"
proof (induction rule: descendant.induct)
  case self
  show ?case by (rule free_dirs_worklist) simp
next
  case (child r n c)
  from free_dirs_closed [OF child.hyps(2) child.IH child.hyps(3)] show ?case .
qed

lemma descendant_shrink:
  "descendant (h[x := None]) d r \<Longrightarrow> descendant h d r"
proof (induction rule: descendant.induct)
  case self
  show ?case by (rule descendant.self)
next
  case (child r n c)
  from child.hyps(2) have "deref h r = Some n"
    by (simp add: deref_list_update_None split: if_splits)
  from descendant.child [OF child.IH this child.hyps(3)] show ?case .
qed

lemma descendant_trans:
  "descendant h b c \<Longrightarrow> descendant h a b \<Longrightarrow> descendant h a c"
  by (induction rule: descendant.induct) (auto intro: descendant.child)

lemma free_dirs_only:
  "deref h r = Some n \<Longrightarrow> deref (free_dirs h ws) r = None \<Longrightarrow> \<exists>x\<in>set ws. descendant h x r"
proof (induction h ws arbitrary: r n rule: free_dirs.induct)
  case (1 h)
  then show ?case by simp
next
  case (2 h x xs)
  show ?case
  proof (cases "deref h x")
    case None
    with 2 show ?thesis by auto
  next
    case (Some m)
    show ?thesis
    proof (cases "r = x")
      case True
      then show ?thesis by (auto intro: descendant.self)
    next
      case False
      with "2.prems" have live: "deref (h[x := None]) r = Some n"
        by (simp add: deref_list_update_None)
      from "2.prems"(2) Some have "deref (free_dirs (h[x := None]) (children m @ xs)) r = None"
        by simp
      from "2.IH"(2) [OF Some live this]
      obtain y where y: "y \<in> set (children m @ xs)" and d: "descendant (h[x := None]) y r"
        by blast
      from d have d': "descendant h y r"
        by (rule descendant_shrink)
      show ?thesis
      proof (cases "y \<in> set xs")
        case True
        with d' show ?thesis by auto
      next
        case False
        with y have "y \<in> set (children m)" by simp
        with Some have "descendant h x y"
          by (auto intro: descendant.child descendant.self)
        with d' have "descendant h x r"
          by (rule descendant_trans)
        then show ?thesis by auto
      qed
    qed
  qed
qed

lemma deref_DeleteDirectory:
  assumes "deref h d = Some dn" and "dir_parent dn = Some p"
  shows "(descendant h d r \<longrightarrow> deref (DeleteDirectory h d) r = None) \<and>
         (\<forall>pn'. deref (DeleteDirectory h d) p = Some pn' \<longrightarrow> d \<notin> set (children pn')) \<and>
         (\<not> descendant h d r \<longrightarrow> r \<noteq> p \<longrightarrow> deref (DeleteDirectory h d) r = deref h r)"
proof -
  define h1 where "h1 = free_dirs h [d]"
  have del: "DeleteDirectory h d = update_dir h1 p (\<lambda>pn. pn\<lparr>children := removeAll d (children pn)\<rparr>)"
    using assms by (simp add: DeleteDirectory_def h1_def)
  have a: "deref (DeleteDirectory h d) r = None" if "descendant h d r"
  proof -
    have "deref h1 r = None"
      unfolding h1_def using that by (rule free_dirs_descendant)
    then show ?thesis
      by (auto simp: del deref_update_dir)
  qed
  have b: "d \<notin> set (children pn')" if "deref (DeleteDirectory h d) p = Some pn'" for pn'
    using that by (auto simp: del deref_update_dir)
  have c: "deref (DeleteDirectory h d) r = deref h r" if nd: "\<not> descendant h d r" and "r \<noteq> p"
  proof (cases "deref h r")
    case None
    have "deref h1 r = None"
    proof (rule ccontr)
      assume "deref h1 r \<noteq> None"
      then obtain m where "deref h1 r = Some m" by auto
      from free_dirs_survivor [OF this [unfolded h1_def]] None show False by simp
    qed
    with None that show ?thesis
      by (simp add: del deref_update_dir)
  next
    case (Some m)
    have "deref h1 r \<noteq> None"
    proof
      assume "deref h1 r = None"
      from free_dirs_only [OF Some this [unfolded h1_def]] nd show False by simp
    qed
    then obtain m' where m': "deref h1 r = Some m'" by auto
    from free_dirs_survivor [OF this [unfolded h1_def]] Some have "m' = m" by simp
    with m' Some that show ?thesis
      by (simp add: del deref_update_dir)
  qed
  from a b c show ?thesis by blast
qed

lemma UpdateArchiveFile_keeps_live:
  assumes "\<not> (open_fails env w parent name info plugin \<and> FindChild (db w) parent name \<noteq> None)"
    and "deref (db w) r = Some m"
  shows "deref (db (state_of (UpdateArchiveFile env w parent name info plugin))) r \<noteq> None"
proof (cases "archive_up_to_date w parent name info")
  case True
  then show ?thesis
    using assms(2) by (simp add: UpdateArchiveFile_def lock_defs archive_up_to_date_def)
next
  case noskip: False
  show ?thesis
  proof (cases "MapChildFS env (GetPath env (db w) parent) name")
    case None
    then show ?thesis
      using assms(2) by (simp add: UpdateArchiveFile_def Let_def)
  next
    case (Some path_fs)
    show ?thesis
    proof (cases "archive_file_open env plugin path_fs")
      case (Inl e)
      with assms(1) noskip Some have "FindChild (db w) parent name = None"
        by (simp add: open_fails_def)
      with Inl Some noskip assms(2) show ?thesis
        by (simp add: UpdateArchiveFile_def lock_defs Let_def archive_up_to_date_def)
    next
      case (Inr entries)
      from UpdateArchiveFile_open_db [OF noskip [unfolded archive_up_to_date_def] Some Inr]
      obtain w4 d where res: "db (state_of (UpdateArchiveFile env w parent name info plugin)) =
                   db (state_of (Visit env w4 d entries))"
        and w4: "case FindChild (db w) parent name of
                  Some c \<Rightarrow> d = c \<and> db w4 = update_dir (db w) c (\<lambda>n. n\<lparr>mtime := info_mtime info\<rparr>)
                | None \<Rightarrow> d = length (db w) \<and>
                    db w4 = update_dir (update_dir (fst (CreateChild (db w) parent name)) (length (db w))
                              (\<lambda>n. n\<lparr>device := DEVICE_INARCHIVE\<rparr>)) (length (db w))
                              (\<lambda>n. n\<lparr>mtime := info_mtime info\<rparr>)"
        by blast
      have "\<exists>m4. deref (db w4) r = Some m4"
      proof (cases "FindChild (db w) parent name")
        case None
        from db_le_liveD [OF db_le_CreateChild assms(2), of parent name]
        obtain m1 where "deref (fst (CreateChild (db w) parent name)) r = Some m1"
          by blast
        with None w4 show ?thesis
          by (auto simp: deref_update_dir)
      next
        case (Some c)
        with w4 assms(2) show ?thesis
          by (auto simp: deref_update_dir)
      qed
      then obtain m4 where "deref (db w4) r = Some m4"
        by blast
      from db_le_liveD [OF db_le_Visit this, of env d entries] show ?thesis
        by (auto simp: res)
    qed
  qed
qed

text \<open>
  C4. If a call of \<^verbatim>\<open>UpdateArchiveFile\<close> finds a child directory \<open>d\<close> named \<open>name\<close> under
  \<open>parent\<close> (with its parent back-reference set), tries to open the archive, and the
  open fails, then the call returns and every descendant of \<open>d\<close> (\<open>d\<close> itself included)
  is gone from the database, \<open>d\<close> is no child of \<open>parent\<close> any more, and every other
  directory but \<open>parent\<close> is as it was. On every other path through the call (archive
  up to date, no local path, archive opened, or open failed with no such child) every
  directory that was live before the call is live after it.
\<close>

theorem sync_open_failure:
  "(FindChild (db w) parent name = Some d \<and> deref (db w) d = Some dn \<and>
    dir_parent dn = Some parent \<and> open_fails env w parent name info plugin \<longrightarrow>
      (\<exists>w'. UpdateArchiveFile env w parent name info plugin = Return w' \<and>
            (\<forall>r. descendant (db w) d r \<longrightarrow> deref (db w') r = None) \<and>
            (\<forall>pn'. deref (db w') parent = Some pn' \<longrightarrow> d \<notin> set (children pn')) \<and>
            (\<forall>r. \<not> descendant (db w) d r \<longrightarrow> r \<noteq> parent \<longrightarrow> deref (db w') r = deref (db w) r))) \<and>
   (\<not> (open_fails env w parent name info plugin \<and> FindChild (db w) parent name \<noteq> None) \<longrightarrow>
      (\<forall>r m. deref (db w) r = Some m \<longrightarrow>
         deref (db (state_of (UpdateArchiveFile env w parent name info plugin))) r \<noteq> None))"
proof (intro conjI impI allI)
  assume a: "FindChild (db w) parent name = Some d \<and> deref (db w) d = Some dn \<and>
    dir_parent dn = Some parent \<and> open_fails env w parent name info plugin"
  then have found: "FindChild (db w) parent name = Some d" and dn: "deref (db w) d = Some dn"
    and par: "dir_parent dn = Some parent" and fails: "open_fails env w parent name info plugin"
    by simp_all
  from fails obtain path_fs e where p: "MapChildFS env (GetPath env (db w) parent) name = Some path_fs"
    and e: "archive_file_open env plugin path_fs = Inl e"
    by (auto simp: open_fails_def split: option.splits sum.splits)
  from fails found have noskip:
    "((case deref (db w) d of None \<Rightarrow> False | Some n \<Rightarrow> mtime n = info_mtime info)
      \<and> \<not> walk_discard w) = False"
    by (simp add: open_fails_def archive_up_to_date_def)
  define w' where "w' = w\<lparr>events := events w @ [ArchiveFile_Open path_fs, LogError e],
                          db := DeleteDirectory (db w) d\<rparr>"
  have run: "UpdateArchiveFile env w parent name info plugin = Return w'"
    using found p e by (simp add: UpdateArchiveFile_def lock_defs Let_def noskip w'_def)
  have dbw: "db w' = DeleteDirectory (db w) d"
    by (simp add: w'_def)
  note del = deref_DeleteDirectory [OF dn par]
  have "\<forall>r. descendant (db w) d r \<longrightarrow> deref (db w') r = None"
    using del by (simp add: dbw)
  moreover have "\<forall>pn'. deref (db w') parent = Some pn' \<longrightarrow> d \<notin> set (children pn')"
    using del by (simp add: dbw)
  moreover have "\<forall>r. \<not> descendant (db w) d r \<longrightarrow> r \<noteq> parent \<longrightarrow> deref (db w') r = deref (db w) r"
    using del by (simp add: dbw)
  ultimately show "\<exists>w'. UpdateArchiveFile env w parent name info plugin = Return w' \<and>
                  (\<forall>r. descendant (db w) d r \<longrightarrow> deref (db w') r = None) \<and>
                  (\<forall>pn'. deref (db w') parent = Some pn' \<longrightarrow> d \<notin> set (children pn')) \<and>
                  (\<forall>r. \<not> descendant (db w) d r \<longrightarrow> r \<noteq> parent \<longrightarrow> deref (db w') r = deref (db w) r)"
    using run by blast
next
  fix r m
  assume "\<not> (open_fails env w parent name info plugin \<and> FindChild (db w) parent name \<noteq> None)"
    and "deref (db w) r = Some m"
  then show "deref (db (state_of (UpdateArchiveFile env w parent name info plugin))) r \<noteq> None"
    by (rule UpdateArchiveFile_keeps_live)
qed

theorem sync_open_failure_witness:
  "FindChild (db example_synced) 0 ''m.zip'' = Some 1 \<and>
   open_fails example_env_broken example_synced 0 ''m.zip'' \<lparr>info_mtime = 6\<rparr> ''zip'' \<and>
   (\<exists>w'. UpdateArchiveFile example_env_broken example_synced 0 ''m.zip'' \<lparr>info_mtime = 6\<rparr> ''zip'' = Return w' \<and>
         deref (db w') 1 = None \<and> deref (db w') 2 = None \<and>
         deref (db w') 0 = Some \<lparr>dir_name = ''music'', mtime = 0, device = DEVICE_ID 1,
              children = [], songs = [], dir_parent = None\<rparr>) \<and>
   \<not> open_fails example_env example_synced 0 ''m.zip'' \<lparr>info_mtime = 6\<rparr> ''zip'' \<and>
   deref (db (state_of (UpdateArchiveFile example_env example_synced 0 ''m.zip'' \<lparr>info_mtime = 6\<rparr> ''zip''))) 2 \<noteq> None"
proof -
  let ?dn = "\<lparr>dir_name = ''m.zip'', mtime = 5, device = DEVICE_INARCHIVE, children = [2],
                   songs = [\<lparr>uri = ''d.mod'', tag = ''tag''\<rparr>], dir_parent = Some 0\<rparr>"
  let ?an = "\<lparr>dir_name = ''a'', mtime = 0, device = DEVICE_INARCHIVE, children = [],
                   songs = [\<lparr>uri = ''b.it'', tag = ''tag''\<rparr>, \<lparr>uri = ''c.it'', tag = ''tag''\<rparr>],
                   dir_parent = Some 1\<rparr>"
  have f: "FindChild (db example_synced) 0 ''m.zip'' = Some 1"
    by (simp add: example_synced_def db_defs)
  have g: "deref (db example_synced) 1 = Some ?dn"
    by (simp add: example_synced_def deref_def)
  have g2: "deref (db example_synced) 2 = Some ?an"
    by (simp add: example_synced_def deref_def)
  have p: "dir_parent ?dn = Some 0"
    by simp
  have fails: "open_fails example_env_broken example_synced 0 ''m.zip'' \<lparr>info_mtime = 6\<rparr> ''zip''"
    by (simp add: open_fails_def archive_up_to_date_def example_more_defs example_env_def db_defs)
  have works: "\<not> open_fails example_env example_synced 0 ''m.zip'' \<lparr>info_mtime = 6\<rparr> ''zip''"
    by (simp add: open_fails_def archive_up_to_date_def example_more_defs example_env_def db_defs)
  have d1: "descendant (db example_synced) 1 1"
    by (rule descendant.self)
  have d2: "descendant (db example_synced) 1 2"
    by (rule descendant.child [OF d1 g]) simp
  have n0: "\<not> descendant (db example_synced) 1 0"
  proof
    assume "descendant (db example_synced) 1 0"
    then show False
    proof (cases rule: descendant.cases)
      case self
      then show ?thesis by simp
    next
      case (child r n)
      then have "r < 3" and "example_synced = example_synced"
        by (auto dest: deref_less simp: example_synced_def)
      with child(2,3) show ?thesis
        by (auto simp: example_synced_def deref_def less_Suc_eq numeral_3_eq_3)
    qed
  qed
  note t1 = sync_open_failure [of example_synced 0 "''m.zip''" 1 ?dn example_env_broken
      "\<lparr>info_mtime = 6\<rparr>" "''zip''"]
  note t2 = sync_open_failure [of example_synced 0 "''m.zip''" 1 ?dn example_env
      "\<lparr>info_mtime = 6\<rparr>" "''zip''"]
  from t1 f g p fails
  obtain w' where r: "UpdateArchiveFile example_env_broken example_synced 0 ''m.zip'' \<lparr>info_mtime = 6\<rparr> ''zip'' = Return w'"
    and gone: "\<forall>r. descendant (db example_synced) 1 r \<longrightarrow> deref (db w') r = None"
    and unl: "\<forall>pn'. deref (db w') 0 = Some pn' \<longrightarrow> 1 \<notin> set (children pn')"
    by blast
  have root: "deref (db w') 0 = Some \<lparr>dir_name = ''music'', mtime = 0, device = DEVICE_ID 1,
              children = [], songs = [], dir_parent = None\<rparr>"
    using r f fails
    by (auto simp: UpdateArchiveFile_def lock_defs Let_def open_fails_def archive_up_to_date_def
          example_more_defs example_env_def db_defs DeleteDirectory_def)
  from gone d1 d2 have "deref (db w') 1 = None" "deref (db w') 2 = None"
    by blast+
  moreover from t2 works g2
  have "deref (db (state_of (UpdateArchiveFile example_env example_synced 0 ''m.zip'' \<lparr>info_mtime = 6\<rparr> ''zip''))) 2 \<noteq> None"
    by blast
  ultimately show ?thesis
    using f fails works r root by blast
qed

end
